theory Spec2Isabelle
  imports Main "HOL-Library.AList"
begin

text \<open>
  The state container of src/core/state.py and the graph engine of src/core/graph.py,
  as functions on values: a method that raises returns \<open>Inl\<close> of the error, a method
  that mutates its object returns the object after the call, and the \<open>while\<close> loop of
  \<open>Graph.execute\<close> is a recursive function with its termination proof. The
  definitions come first, then the lemmas about them, then one theorem for each claim.
\<close>

section \<open>Python values held in a state\<close>

text \<open>
  The bindings of a state are JSON-like Python values. Dictionaries are association
  lists in insertion order, as Python dictionaries are; a lookup is \<open>map_of\<close>.
  Floats are outside this model.
\<close>

datatype pyval = VNone | VBool bool | VInt int | VStr string
  | VList "pyval list" | VDict "(string \<times> pyval) list"

type_synonym dict = "(string \<times> pyval) list"

datatype pyclass = NoneType | PyBool | PyInt | PyStr | PyList | PyDict | PyTuple | PySet

fun type_of :: "pyval \<Rightarrow> pyclass" where
  "type_of VNone = NoneType"
| "type_of (VBool _) = PyBool"
| "type_of (VInt _) = PyInt"
| "type_of (VStr _) = PyStr"
| "type_of (VList _) = PyList"
| "type_of (VDict _) = PyDict"

text \<open>\<open>isinstance(value, c)\<close> for a builtin class \<open>c\<close>: \<open>bool\<close> is a subclass of \<open>int\<close>.\<close>

definition isinstance :: "pyval \<Rightarrow> pyclass \<Rightarrow> bool" where
  "isinstance v c = (type_of v = c \<or> (type_of v = PyBool \<and> c = PyInt))"

text \<open>Truthiness, and \<open>a or b\<close> on values.\<close>

fun truthy :: "pyval \<Rightarrow> bool" where
  "truthy VNone = False"
| "truthy (VBool b) = b"
| "truthy (VInt i) = (i \<noteq> 0)"
| "truthy (VStr s) = (s \<noteq> [])"
| "truthy (VList xs) = (xs \<noteq> [])"
| "truthy (VDict xs) = (xs \<noteq> [])"

definition py_or :: "pyval \<Rightarrow> pyval \<Rightarrow> pyval" where
  "py_or a b = (if truthy a then a else b)"

text \<open>
  Python's \<open>==\<close> on values: \<open>True == 1\<close> and \<open>False == 0\<close>; lists are equal when
  they are equal element by element; dictionaries are equal when they have the same
  keys and equal values under each key, whatever the insertion order.
\<close>

function (sequential) py_eq :: "pyval \<Rightarrow> pyval \<Rightarrow> bool" where
  "py_eq VNone VNone = True"
| "py_eq (VBool a) (VBool b) = (a = b)"
| "py_eq (VBool a) (VInt j) = ((if a then 1 else 0) = j)"
| "py_eq (VInt i) (VBool b) = (i = (if b then 1 else 0))"
| "py_eq (VInt i) (VInt j) = (i = j)"
| "py_eq (VStr s) (VStr t) = (s = t)"
| "py_eq (VList xs) (VList ys) = list_all2 py_eq xs ys"
| "py_eq (VDict xs) (VDict ys) =
     (set (map fst xs) = set (map fst ys) \<and>
      (\<forall>k \<in> set (map fst xs).
         case map_of xs k of None \<Rightarrow> False
         | Some v \<Rightarrow> (case map_of ys k of None \<Rightarrow> False | Some w \<Rightarrow> py_eq v w)))"
| "py_eq _ _ = False"
  by pat_completeness auto
termination
proof -
  have bound: "size v \<le> size_list (size_prod (\<lambda>x. 0) size) xs"
    if "map_of xs k = Some v" for xs :: dict and k v
    using that by (induction xs) (auto split: if_splits)
  show ?thesis
    by (relation "measure (\<lambda>(a, b). size a)")
       (auto simp: bound less_Suc_eq_le size_list_estimation')
qed

definition dict_eq :: "dict \<Rightarrow> dict \<Rightarrow> bool" where
  "dict_eq xs ys = py_eq (VDict xs) (VDict ys)"

text \<open>\<open>deepcopy\<close> of a value is an equal value sharing nothing; values here are
  immutable terms, so the copy is the value itself.\<close>

definition deepcopy :: "dict \<Rightarrow> dict" where
  "deepcopy d = d"

section \<open>Type hints and state classes (src/core/state.py)\<close>

text \<open>
  A declared field type is a plain class (\<open>str\<close>, \<open>int\<close>, \<open>bool\<close>, \<open>list\<close>, \<open>dict\<close>,
  \<open>tuple\<close>, \<open>set\<close>) or a subscripted generic (\<open>List[...]\<close>, \<open>Dict[..., ...]\<close>,
  \<open>Tuple[...]\<close>, \<open>Set[...]\<close>), whose \<open>get_origin\<close> is the class it subscripts.
\<close>

datatype hint = Plain pyclass | ListOf arg | DictOf arg arg | TupleOf "arg list" | SetOf arg
  and arg = Any | Of hint

fun get_origin :: "hint \<Rightarrow> pyclass option" where
  "get_origin (Plain _) = None"
| "get_origin (ListOf _) = Some PyList"
| "get_origin (DictOf _ _) = Some PyDict"
| "get_origin (TupleOf _) = Some PyTuple"
| "get_origin (SetOf _) = Some PySet"

datatype error =
    ValueError string
  | TypeError string
  | AttributeError string
  | StateValidationError string hint pyclass
  | Raised string

text \<open>
  The state classes: the base class, the two subclasses of state.py with their own
  constructors, and a subclass of \<open>StateSchema\<close> that only declares fields (as
  \<open>TestState\<close> in tests/test_state.py does) and inherits the base constructor.
\<close>

datatype cls = StateSchema | AgentState | GraphState
  | Declared string "(string \<times> hint) list"

text \<open>\<open>get_type_hints\<close> of a class: the annotations of its class body, in the order
  written; an annotation of a name annotated before replaces the earlier one. The base
  class has none.\<close>

definition annotations_dict :: "(string \<times> hint) list \<Rightarrow> (string \<times> hint) list" where
  "annotations_dict anns = fold (\<lambda>(k, t). AList.update k t) anns []"

fun get_type_hints :: "cls \<Rightarrow> (string \<times> hint) list" where
  "get_type_hints StateSchema = []"
| "get_type_hints AgentState =
     [(''messages'', Plain PyList), (''tool_calls'', Plain PyList),
      (''intermediate_steps'', Plain PyList), (''is_complete'', Plain PyBool)]"
| "get_type_hints GraphState =
     [(''current_node'', Plain PyStr), (''next_node'', Plain PyStr),
      (''context'', DictOf (Of (Plain PyStr)) Any),
      (''results'', DictOf (Of (Plain PyStr)) Any)]"
| "get_type_hints (Declared _ anns) = annotations_dict anns"

text \<open>\<open>issubclass c d\<close>: every class derives from \<open>StateSchema\<close> directly.\<close>

definition issubclass :: "cls \<Rightarrow> cls \<Rightarrow> bool" where
  "issubclass c d = (c = d \<or> d = StateSchema)"

record state =
  cls :: cls
  data :: dict

text \<open>\<open>StateSchema._is_valid_type\<close> (state.py 37-49). A subscripted generic whose
  origin is neither \<open>dict\<close> nor \<open>list\<close> falls through to the final
  \<open>isinstance(value, expected_type)\<close>, which raises \<open>TypeError\<close> for a subscripted
  generic whatever the value.\<close>

definition is_valid_type :: "pyval \<Rightarrow> hint \<Rightarrow> error + bool" where
  "is_valid_type v expected_type =
     (let fallthrough =
            (case expected_type of
               Plain c \<Rightarrow> Inr (isinstance v c)
             | _ \<Rightarrow> Inl (TypeError
                 ''Subscripted generics cannot be used with class and instance checks''))
      in case get_origin expected_type of
           Some origin \<Rightarrow>
             (if origin = PyDict then Inr (isinstance v PyDict)
              else if origin = PyList then Inr (isinstance v PyList)
              else fallthrough)
         | None \<Rightarrow> fallthrough)"

text \<open>A value passes the check for a declared type when the check returns \<open>True\<close>.\<close>

abbreviation passes_check :: "pyval \<Rightarrow> hint \<Rightarrow> bool" where
  "passes_check v t \<equiv> is_valid_type v t = Inr True"

text \<open>\<open>StateSchema._validate_types\<close> (state.py 25-35): the loop over the hints,
  raising at the first declared field that is present and fails the check, or at the
  first whose check raises.\<close>

fun validate_fields :: "(string \<times> hint) list \<Rightarrow> dict \<Rightarrow> error + unit" where
  "validate_fields [] d = Inr ()"
| "validate_fields ((field, expected_type) # rest) d =
     (case map_of d field of
        Some v \<Rightarrow>
          (case is_valid_type v expected_type of
             Inl e \<Rightarrow> Inl e
           | Inr ok \<Rightarrow>
               (if \<not> ok
                then Inl (StateValidationError field expected_type (type_of v))
                else validate_fields rest d))
      | None \<Rightarrow> validate_fields rest d)"

definition validate_types :: "cls \<Rightarrow> dict \<Rightarrow> error + unit" where
  "validate_types c d = validate_fields (get_type_hints c) d"

text \<open>\<open>StateSchema.__init__(self, **kwargs)\<close> (state.py 20-23), for an instance of
  class \<open>c\<close>.\<close>

definition StateSchema_init :: "cls \<Rightarrow> dict \<Rightarrow> error + state" where
  "StateSchema_init c kwargs =
     (case validate_types c kwargs of
        Inl e \<Rightarrow> Inl e
      | Inr _ \<Rightarrow> Inr \<lparr>cls = c, data = deepcopy kwargs\<rparr>)"

text \<open>\<open>AgentState.__init__\<close> (state.py 101-112) and \<open>GraphState.__init__\<close>
  (state.py 158-169).\<close>

definition AgentState_init :: "cls \<Rightarrow> pyval \<Rightarrow> pyval \<Rightarrow> pyval \<Rightarrow> pyval \<Rightarrow> error + state" where
  "AgentState_init c messages tool_calls intermediate_steps is_complete =
     StateSchema_init c
       [(''messages'', py_or messages (VList [])),
        (''tool_calls'', py_or tool_calls (VList [])),
        (''intermediate_steps'', py_or intermediate_steps (VList [])),
        (''is_complete'', is_complete)]"

definition GraphState_init :: "cls \<Rightarrow> pyval \<Rightarrow> pyval \<Rightarrow> pyval \<Rightarrow> pyval \<Rightarrow> error + state" where
  "GraphState_init c current_node next_node context results =
     StateSchema_init c
       [(''current_node'', current_node),
        (''next_node'', next_node),
        (''context'', py_or context (VDict [])),
        (''results'', py_or results (VDict []))]"

text \<open>
  Binding the keywords of a call \<open>c(**kwargs)\<close> to the parameters of the constructor:
  the keyword \<open>self\<close> collides with the first parameter, and a keyword that is not a
  parameter is rejected, unless the constructor takes \<open>**kwargs\<close>.
\<close>

fun check_keywords :: "string list option \<Rightarrow> dict \<Rightarrow> error + unit" where
  "check_keywords params [] = Inr ()"
| "check_keywords params ((k, v) # rest) =
     (if k = ''self'' then Inl (TypeError ''got multiple values for argument self'')
      else case params of
        None \<Rightarrow> check_keywords params rest
      | Some ps \<Rightarrow>
          (if k \<in> set ps then check_keywords params rest
           else Inl (TypeError (''got an unexpected keyword argument '' @ k))))"

definition arg_or :: "dict \<Rightarrow> string \<Rightarrow> pyval \<Rightarrow> pyval" where
  "arg_or kwargs name dflt = (case map_of kwargs name of Some v \<Rightarrow> v | None \<Rightarrow> dflt)"

text \<open>The call \<open>c(**kwargs)\<close>.\<close>

fun new :: "cls \<Rightarrow> dict \<Rightarrow> error + state" where
  "new AgentState kwargs =
     (case check_keywords
             (Some [''messages'', ''tool_calls'', ''intermediate_steps'', ''is_complete''])
             kwargs of
        Inl e \<Rightarrow> Inl e
      | Inr _ \<Rightarrow>
          AgentState_init AgentState
            (arg_or kwargs ''messages'' VNone) (arg_or kwargs ''tool_calls'' VNone)
            (arg_or kwargs ''intermediate_steps'' VNone)
            (arg_or kwargs ''is_complete'' (VBool False)))"
| "new GraphState kwargs =
     (case check_keywords
             (Some [''current_node'', ''next_node'', ''context'', ''results'']) kwargs of
        Inl e \<Rightarrow> Inl e
      | Inr _ \<Rightarrow>
          GraphState_init GraphState
            (arg_or kwargs ''current_node'' (VStr '''')) (arg_or kwargs ''next_node'' (VStr ''''))
            (arg_or kwargs ''context'' VNone) (arg_or kwargs ''results'' VNone))"
| "new c kwargs =
     (case check_keywords None kwargs of
        Inl e \<Rightarrow> Inl e
      | Inr _ \<Rightarrow> StateSchema_init c kwargs)"

text \<open>\<open>StateSchema.get\<close> (state.py 51-53).\<close>

definition StateSchema_get :: "state \<Rightarrow> string \<Rightarrow> pyval \<Rightarrow> pyval" where
  "StateSchema_get self key dflt =
     (case map_of (data self) key of Some v \<Rightarrow> v | None \<Rightarrow> dflt)"

text \<open>\<open>StateSchema.set\<close> (state.py 55-67): the state it constructs, or the error it
  raises. \<open>new_data[key] = value\<close> replaces the binding in place or appends it.\<close>

definition StateSchema_set :: "state \<Rightarrow> string \<Rightarrow> pyval \<Rightarrow> error + state" where
  "StateSchema_set self key v =
     (let new_data = AList.update key v (deepcopy (data self));
          type_hints = get_type_hints (cls self)
      in case map_of type_hints key of
           Some expected_type \<Rightarrow>
             (case is_valid_type v expected_type of
                Inl e \<Rightarrow> Inl e
              | Inr ok \<Rightarrow>
                  (if \<not> ok
                   then Inl (StateValidationError key expected_type (type_of v))
                   else new (cls self) new_data))
         | None \<Rightarrow> new (cls self) new_data)"

text \<open>\<open>StateSchema.to_dict\<close> (state.py 74-76).\<close>

definition to_dict :: "state \<Rightarrow> dict" where
  "to_dict self = deepcopy (data self)"

text \<open>\<open>StateSchema.__eq__\<close> (state.py 82-86); \<open>isinstance(other, self.__class__)\<close>
  holds when the class of \<open>other\<close> is the class of \<open>self\<close> or derives from it.\<close>

definition StateSchema_eq :: "state \<Rightarrow> state \<Rightarrow> bool" where
  "StateSchema_eq self other =
     (if \<not> issubclass (cls other) (cls self) then False
      else dict_eq (data self) (data other))"

text \<open>
  The operators \<open>a == b\<close> and \<open>a != b\<close> on two states. Python tries the reflected
  method of the right operand first when its class is a proper subclass of the left
  operand's class, and the left operand's method otherwise; \<open>__eq__\<close> above never
  returns \<open>NotImplemented\<close>, so the method tried first decides. No class defines
  \<open>__ne__\<close>, so \<open>!=\<close> inverts \<open>__eq__\<close> under the same dispatch.
\<close>

definition equals :: "state \<Rightarrow> state \<Rightarrow> bool" where
  "equals a b =
     (if cls a \<noteq> cls b \<and> issubclass (cls b) (cls a) then StateSchema_eq b a
      else StateSchema_eq a b)"

definition not_equals :: "state \<Rightarrow> state \<Rightarrow> bool" where
  "not_equals a b =
     (if cls a \<noteq> cls b \<and> issubclass (cls b) (cls a) then \<not> StateSchema_eq b a
      else \<not> StateSchema_eq a b)"

section \<open>The graph engine (src/core/graph.py)\<close>

text \<open>
  The engine never looks inside a state, so nodes, edges and graphs are polymorphic in
  the state type. A node function returns the next state or raises; an edge condition
  is a predicate of the state. Both are functions of the state alone.
\<close>

record 's node =
  name :: string
  func :: "'s \<Rightarrow> error + 's"

record 's edge =
  source :: string
  target :: string
  condition :: "('s \<Rightarrow> bool) option"

record 's graph =
  gname :: string
  nodes :: "(string \<times> 's node) list"
  edges :: "'s edge list"
  entry_point :: "string option"

text \<open>
  A record of the calls the engine makes, in the order it makes them:
  \<open>Executed n s\<close> for \<open>Node.execute\<close> of the node named \<open>n\<close> on state \<open>s\<close>, and
  \<open>Evaluated i s\<close> for \<open>should_follow\<close> of the \<open>i\<close>-th added edge on state \<open>s\<close>.
\<close>

datatype 's event = Executed string 's | Evaluated nat 's

text \<open>The names of the nodes executed, in order.\<close>

fun executed_names :: "'s event list \<Rightarrow> string list" where
  "executed_names [] = []"
| "executed_names (Executed n s # tr) = n # executed_names tr"
| "executed_names (Evaluated i s # tr) = executed_names tr"

text \<open>\<open>Node.execute\<close> (graph.py 24-33): logs, and re-raises what the function raises.\<close>

definition Node_execute :: "'s node \<Rightarrow> 's \<Rightarrow> error + 's" where
  "Node_execute nd st = func nd st"

text \<open>\<open>Edge.should_follow\<close> (graph.py 54-58).\<close>

definition should_follow :: "'s edge \<Rightarrow> 's \<Rightarrow> bool" where
  "should_follow e st = (case condition e of None \<Rightarrow> True | Some c \<Rightarrow> c st)"

text \<open>The conditions \<open>always_true\<close> and \<open>always_false\<close> of src/core/edges.py 7-14.\<close>

definition always_true :: "'s \<Rightarrow> bool" where
  "always_true st = True"

definition always_false :: "'s \<Rightarrow> bool" where
  "always_false st = False"

definition quoted :: "string \<Rightarrow> string" where
  "quoted s = [CHR 0x27] @ s @ [CHR 0x27]"

text \<open>\<open>Graph.__init__\<close>, \<open>add_node\<close>, \<open>add_edge\<close>, \<open>set_entry_point\<close> (graph.py 68-103).
  Each builder returns the updated graph, or the error it raises before any update.\<close>

definition Graph_init :: "string \<Rightarrow> 's graph" where
  "Graph_init n = \<lparr>gname = n, nodes = [], edges = [], entry_point = None\<rparr>"

definition add_node :: "'s graph \<Rightarrow> string \<Rightarrow> ('s \<Rightarrow> error + 's) \<Rightarrow> error + 's graph" where
  "add_node g n f =
     (if n \<in> fst ` set (nodes g)
      then Inl (ValueError (''Node '' @ quoted n @ '' already exists''))
      else Inr (g\<lparr>nodes := nodes g @ [(n, \<lparr>name = n, func = f\<rparr>)],
                  entry_point := (if entry_point g = None then Some n else entry_point g)\<rparr>))"

definition add_edge :: "'s graph \<Rightarrow> string \<Rightarrow> string \<Rightarrow> ('s \<Rightarrow> bool) option \<Rightarrow> error + 's graph" where
  "add_edge g src tgt cond =
     (if src \<notin> fst ` set (nodes g)
      then Inl (ValueError (''Source node '' @ quoted src @ '' not found''))
      else if tgt \<notin> fst ` set (nodes g)
      then Inl (ValueError (''Target node '' @ quoted tgt @ '' not found''))
      else Inr (g\<lparr>edges := edges g @ [\<lparr>source = src, target = tgt, condition = cond\<rparr>]\<rparr>))"

definition set_entry_point :: "'s graph \<Rightarrow> string \<Rightarrow> error + 's graph" where
  "set_entry_point g node_name =
     (if node_name \<notin> fst ` set (nodes g)
      then Inl (ValueError (''Node '' @ quoted node_name @ '' not found''))
      else Inr (g\<lparr>entry_point := Some node_name\<rparr>))"

text \<open>\<open>Graph.get_next_nodes\<close> (graph.py 105-113): the loop over \<open>self.edges\<close> with the
  index of the edge at hand; \<open>should_follow\<close> is called only when the source matches
  (\<open>and\<close> short-circuits), and each call is recorded.\<close>

fun next_nodes_loop ::
  "'s edge list \<Rightarrow> nat \<Rightarrow> string \<Rightarrow> 's \<Rightarrow> 's event list \<Rightarrow> string list
     \<Rightarrow> 's event list \<times> string list" where
  "next_nodes_loop [] i current_node st log next_nodes = (log, next_nodes)"
| "next_nodes_loop (e # es) i current_node st log next_nodes =
     (if source e = current_node
      then (if should_follow e st
            then next_nodes_loop es (Suc i) current_node st
                   (log @ [Evaluated i st]) (next_nodes @ [target e])
            else next_nodes_loop es (Suc i) current_node st
                   (log @ [Evaluated i st]) next_nodes)
      else next_nodes_loop es (Suc i) current_node st log next_nodes)"

definition get_next_nodes_log :: "'s graph \<Rightarrow> string \<Rightarrow> 's \<Rightarrow> 's event list \<times> string list" where
  "get_next_nodes_log g current_node st = next_nodes_loop (edges g) 0 current_node st [] []"

definition get_next_nodes :: "'s graph \<Rightarrow> string \<Rightarrow> 's \<Rightarrow> string list" where
  "get_next_nodes g current_node st = snd (get_next_nodes_log g current_node st)"

text \<open>
  The \<open>while\<close> loop of \<open>Graph.execute\<close> (graph.py 126-147). The loop state is the graph,
  the current state, the current node, the visited set and the record of calls; the
  result is the graph after the run, the record, and the returned state or the error.
\<close>

function execute_loop ::
  "'s graph \<Rightarrow> 's \<Rightarrow> string \<Rightarrow> string set \<Rightarrow> 's event list
     \<Rightarrow> 's graph \<times> 's event list \<times> (error + 's)" where
  "execute_loop g current_state current_node visited_nodes log =
     (if current_node \<in> visited_nodes
      then (g, log, Inl (ValueError (''Cycle detected: node '' @ quoted current_node
                                      @ '' already visited'')))
      else case map_of (nodes g) current_node of
        None \<Rightarrow> (g, log, Inl (ValueError (''Node '' @ quoted current_node @ '' not found'')))
      | Some nd \<Rightarrow>
          (case Node_execute nd current_state of
             Inl e \<Rightarrow> (g, log @ [Executed current_node current_state], Inl e)
           | Inr st' \<Rightarrow>
               (case get_next_nodes_log g current_node st' of
                  (evals, next_nodes) \<Rightarrow>
                    (case next_nodes of
                       [] \<Rightarrow> (g, log @ Executed current_node current_state # evals, Inr st')
                     | n # _ \<Rightarrow>
                         execute_loop g st' n (insert current_node visited_nodes)
                           (log @ Executed current_node current_state # evals)))))"
  by pat_completeness auto
termination
proof (relation "measure (\<lambda>(g, st, cur, vis, log). card (fst ` set (nodes g) - vis))")
  show "wf (measure (\<lambda>(g, st, cur, vis, log). card (fst ` set (nodes g) - vis)))"
    by simp
next
  fix g :: "'s graph" and current_state st' :: 's and current_node n :: string
    and visited_nodes :: "string set" and log evals :: "'s event list" and nd :: "'s node"
  assume fresh: "current_node \<notin> visited_nodes"
    and found: "map_of (nodes g) current_node = Some nd"
  from found have "current_node \<in> fst ` set (nodes g)"
    by (metis domI dom_map_of_conv_image_fst)
  with fresh have "fst ` set (nodes g) - insert current_node visited_nodes
      \<subset> fst ` set (nodes g) - visited_nodes"
    by auto
  then have "card (fst ` set (nodes g) - insert current_node visited_nodes)
      < card (fst ` set (nodes g) - visited_nodes)"
    by (intro psubset_card_mono) auto
  then show "((g, st', n, insert current_node visited_nodes,
               log @ Executed current_node current_state # evals),
              (g, current_state, current_node, visited_nodes, log))
      \<in> measure (\<lambda>(g, st, cur, vis, log). card (fst ` set (nodes g) - vis))"
    by simp
qed

declare execute_loop.simps [simp del]

text \<open>\<open>Graph.execute\<close> (graph.py 115-150).\<close>

definition execute :: "'s graph \<Rightarrow> 's \<Rightarrow> 's graph \<times> 's event list \<times> (error + 's)" where
  "execute g initial_state =
     (case entry_point g of
        None \<Rightarrow> (g, [], Inl (ValueError ''Graph has no entry point''))
      | Some ep \<Rightarrow> execute_loop g initial_state ep {} [])"

text \<open>
  The state of the \<open>while\<close> loop of \<open>Graph.execute\<close> (graph.py 122-147) at the head of
  its \<open>k\<close>-th iteration: the current state, the current node, the visited set and the
  record of calls so far. It is \<open>None\<close> when the run has ended before that iteration.
\<close>

primrec loop_state ::
  "'s graph \<Rightarrow> 's \<Rightarrow> nat \<Rightarrow> ('s \<times> string \<times> string set \<times> 's event list) option" where
  "loop_state g initial_state 0 =
     (case entry_point g of
        None \<Rightarrow> None
      | Some ep \<Rightarrow> Some (initial_state, ep, {}, []))"
| "loop_state g initial_state (Suc k) =
     (case loop_state g initial_state k of
        None \<Rightarrow> None
      | Some (current_state, current_node, visited_nodes, log) \<Rightarrow>
          (if current_node \<in> visited_nodes then None
           else case map_of (nodes g) current_node of
             None \<Rightarrow> None
           | Some nd \<Rightarrow>
               (case Node_execute nd current_state of
                  Inl e \<Rightarrow> None
                | Inr st' \<Rightarrow>
                    (case get_next_nodes_log g current_node st' of
                       (evals, next_nodes) \<Rightarrow>
                         (case next_nodes of
                            [] \<Rightarrow> None
                          | n # _ \<Rightarrow>
                              Some (st', n, insert current_node visited_nodes,
                                    log @ Executed current_node current_state # evals))))))"

text \<open>\<open>Graph.validate\<close> (graph.py 152-180): the graph after the call and the issues.
  The local set \<open>nodes_with_incoming_edges\<close> starts from the entry point, which may be
  \<open>None\<close>.\<close>

definition validate :: "'s graph \<Rightarrow> 's graph \<times> string list" where
  "validate g =
     (let registered = fst ` set (nodes g);
          issues1 = (if nodes g = [] then [''Graph has no nodes''] else []);
          issues2 = (case entry_point g of
                       None \<Rightarrow> [''Graph has no entry point'']
                     | Some ep \<Rightarrow>
                         (if ep \<notin> registered
                          then [''Entry point '' @ quoted ep @ '' not found in nodes'']
                          else []));
          nodes_with_incoming_edges =
            insert (entry_point g) (set (map (\<lambda>e. Some (target e)) (edges g)));
          issues3 = concat (map (\<lambda>node_name.
                       if Some node_name \<notin> nodes_with_incoming_edges
                          \<and> Some node_name \<noteq> entry_point g
                       then [''Node '' @ quoted node_name
                             @ '' has no incoming edges and is not entry point'']
                       else []) (map fst (nodes g)));
          issues4 = concat (map (\<lambda>e.
                       (if source e \<notin> registered
                        then [''Edge source '' @ quoted (source e) @ '' not found'']
                        else [])
                       @ (if target e \<notin> registered
                          then [''Edge target '' @ quoted (target e) @ '' not found'']
                          else [])) (edges g))
      in (g, issues1 @ issues2 @ issues3 @ issues4))"

section \<open>Graphs of the test-suite and of the specification\<close>

text \<open>\<open>test_func\<close> of tests/test_graph.py returns its state; \<open>StateSchema()\<close> has no
  bindings. \<open>cycle_graph\<close> is the graph of \<open>test_execution_cycle_detection\<close>.\<close>

definition test_func :: "state \<Rightarrow> error + state" where
  "test_func st = Inr st"

definition empty_state :: state where
  "empty_state = \<lparr>cls = StateSchema, data = []\<rparr>"

definition cycle_graph :: "state graph" where
  "cycle_graph =
     \<lparr>gname = ''test_graph'',
      nodes = [(''node1'', \<lparr>name = ''node1'', func = test_func\<rparr>),
               (''node2'', \<lparr>name = ''node2'', func = test_func\<rparr>)],
      edges = [\<lparr>source = ''node1'', target = ''node2'', condition = None\<rparr>,
               \<lparr>source = ''node2'', target = ''node1'', condition = None\<rparr>],
      entry_point = Some ''node1''\<rparr>"

text \<open>\<open>key_equals\<close> of src/core/edges.py 24-28.\<close>

definition key_equals :: "string \<Rightarrow> pyval \<Rightarrow> state \<Rightarrow> bool" where
  "key_equals key v st = py_eq (StateSchema_get st key VNone) v"

text \<open>The cycle with the first edge guarded by \<open>always_false\<close>.\<close>

definition blocked_cycle_graph :: "state graph" where
  "blocked_cycle_graph =
     \<lparr>gname = ''test_graph'',
      nodes = [(''node1'', \<lparr>name = ''node1'', func = test_func\<rparr>),
               (''node2'', \<lparr>name = ''node2'', func = test_func\<rparr>)],
      edges = [\<lparr>source = ''node1'', target = ''node2'', condition = Some always_false\<rparr>,
               \<lparr>source = ''node2'', target = ''node1'', condition = None\<rparr>],
      entry_point = Some ''node1''\<rparr>"

text \<open>Two unconditional edges from \<open>start\<close>, added in the order \<open>x\<close> then \<open>y\<close>.\<close>

definition tie_graph :: "state graph" where
  "tie_graph =
     \<lparr>gname = ''tie'',
      nodes = [(''start'', \<lparr>name = ''start'', func = test_func\<rparr>),
               (''x'', \<lparr>name = ''x'', func = test_func\<rparr>),
               (''y'', \<lparr>name = ''y'', func = test_func\<rparr>)],
      edges = [\<lparr>source = ''start'', target = ''x'', condition = None\<rparr>,
               \<lparr>source = ''start'', target = ''y'', condition = None\<rparr>],
      entry_point = Some ''start''\<rparr>"

text \<open>A cycle through three nodes, and the two unconditional edges of \<open>tie_graph\<close> behind
  an edge from the same source that is added first and guarded by \<open>always_false\<close>.\<close>

definition three_cycle_graph :: "state graph" where
  "three_cycle_graph =
     \<lparr>gname = ''three'',
      nodes = [(''a'', \<lparr>name = ''a'', func = test_func\<rparr>),
               (''b'', \<lparr>name = ''b'', func = test_func\<rparr>),
               (''c'', \<lparr>name = ''c'', func = test_func\<rparr>)],
      edges = [\<lparr>source = ''a'', target = ''b'', condition = None\<rparr>,
               \<lparr>source = ''b'', target = ''c'', condition = None\<rparr>,
               \<lparr>source = ''c'', target = ''a'', condition = None\<rparr>],
      entry_point = Some ''a''\<rparr>"

definition guarded_tie_graph :: "state graph" where
  "guarded_tie_graph =
     \<lparr>gname = ''guarded_tie'',
      nodes = [(''start'', \<lparr>name = ''start'', func = test_func\<rparr>),
               (''x'', \<lparr>name = ''x'', func = test_func\<rparr>),
               (''y'', \<lparr>name = ''y'', func = test_func\<rparr>),
               (''z'', \<lparr>name = ''z'', func = test_func\<rparr>)],
      edges = [\<lparr>source = ''start'', target = ''z'', condition = Some always_false\<rparr>,
               \<lparr>source = ''start'', target = ''x'', condition = None\<rparr>,
               \<lparr>source = ''start'', target = ''y'', condition = None\<rparr>],
      entry_point = Some ''start''\<rparr>"

text \<open>The end-to-end scenario of the specification: \<open>start\<close> sets \<open>a\<close> to 1, \<open>mid\<close>
  sets \<open>b\<close> to 2, \<open>end\<close> sets \<open>c\<close> to 3; \<open>start -> mid\<close> is unconditional and
  \<open>mid -> end\<close> is guarded by \<open>b == 2\<close>.\<close>

definition scenario_graph :: "state graph" where
  "scenario_graph =
     \<lparr>gname = ''scenario'',
      nodes = [(''start'', \<lparr>name = ''start'', func = (\<lambda>s. StateSchema_set s ''a'' (VInt 1))\<rparr>),
               (''mid'', \<lparr>name = ''mid'', func = (\<lambda>s. StateSchema_set s ''b'' (VInt 2))\<rparr>),
               (''end'', \<lparr>name = ''end'', func = (\<lambda>s. StateSchema_set s ''c'' (VInt 3))\<rparr>)],
      edges = [\<lparr>source = ''start'', target = ''mid'', condition = None\<rparr>,
               \<lparr>source = ''mid'', target = ''end'',
                condition = Some (key_equals ''b'' (VInt 2))\<rparr>],
      entry_point = Some ''start''\<rparr>"


section \<open>What reaches the base constructor\<close>

text \<open>
  Every constructor ends in \<open>StateSchema.__init__\<close>. \<open>constructor_params\<close> gives the
  keyword parameters of the constructor of a class (\<open>None\<close> when it takes \<open>**kwargs\<close>),
  and \<open>base_kwargs\<close> the keyword arguments it hands to \<open>StateSchema.__init__\<close>:
  \<open>AgentState\<close> and \<open>GraphState\<close> fill in their defaults and replace a falsy argument
  of a container field with an empty container.
\<close>

fun constructor_params :: "cls \<Rightarrow> string list option" where
  "constructor_params AgentState =
     Some [''messages'', ''tool_calls'', ''intermediate_steps'', ''is_complete'']"
| "constructor_params GraphState =
     Some [''current_node'', ''next_node'', ''context'', ''results'']"
| "constructor_params _ = None"

fun base_kwargs :: "cls \<Rightarrow> dict \<Rightarrow> dict" where
  "base_kwargs AgentState kwargs =
     [(''messages'', py_or (arg_or kwargs ''messages'' VNone) (VList [])),
      (''tool_calls'', py_or (arg_or kwargs ''tool_calls'' VNone) (VList [])),
      (''intermediate_steps'', py_or (arg_or kwargs ''intermediate_steps'' VNone) (VList [])),
      (''is_complete'', arg_or kwargs ''is_complete'' (VBool False))]"
| "base_kwargs GraphState kwargs =
     [(''current_node'', arg_or kwargs ''current_node'' (VStr [])),
      (''next_node'', arg_or kwargs ''next_node'' (VStr [])),
      (''context'', py_or (arg_or kwargs ''context'' VNone) (VDict [])),
      (''results'', py_or (arg_or kwargs ''results'' VNone) (VDict []))]"
| "base_kwargs _ kwargs = kwargs"

section \<open>State instances on a heap\<close>

text \<open>
  A state is an object: \<open>set\<close> reads the instance it is called on and allocates the
  instance it returns. The heap is the list of the instances allocated so far, a
  reference is an index into it, and a call that raises allocates nothing reachable.
\<close>

type_synonym heap = "state list"

definition heap_set :: "heap \<Rightarrow> nat \<Rightarrow> string \<Rightarrow> pyval \<Rightarrow> heap \<times> (error + nat)" where
  "heap_set h self key v =
     (case StateSchema_set (h ! self) key v of
        Inl e \<Rightarrow> (h, Inl e)
      | Inr obj \<Rightarrow> (h @ [obj], Inr (length h)))"

definition heap_get :: "heap \<Rightarrow> nat \<Rightarrow> string \<Rightarrow> pyval \<Rightarrow> pyval" where
  "heap_get h self key dflt = StateSchema_get (h ! self) key dflt"

definition heap_not_equals :: "heap \<Rightarrow> nat \<Rightarrow> nat \<Rightarrow> bool" where
  "heap_not_equals h a b = not_equals (h ! a) (h ! b)"

section \<open>Attributes of the state classes\<close>

text \<open>
  The names bound in the class bodies of state.py, and the lookup of a name on a class
  along its base classes, giving the class whose body binds it. The attributes every
  class inherits from \<open>object\<close> are not listed.
\<close>

fun class_body :: "cls \<Rightarrow> string list" where
  "class_body StateSchema =
     [''__init__'', ''_validate_types'', ''_is_valid_type'', ''get'', ''set'', ''update'',
      ''to_dict'', ''to_json'', ''__eq__'', ''__repr__'']"
| "class_body AgentState =
     [''__init__'', ''messages'', ''tool_calls'', ''intermediate_steps'', ''is_complete'',
      ''add_message'', ''add_tool_call'', ''add_intermediate_step'']"
| "class_body GraphState =
     [''__init__'', ''current_node'', ''next_node'', ''context'', ''results'',
      ''set_current_node'', ''set_next_node'', ''add_context'', ''add_result'']"
| "class_body (Declared _ _) = []"

definition class_getattr :: "cls \<Rightarrow> string \<Rightarrow> error + cls" where
  "class_getattr c attr =
     (if attr \<in> set (class_body c) then Inr c
      else if attr \<in> set (class_body StateSchema) then Inr StateSchema
      else Inl (AttributeError attr))"

section \<open>States of the test-suite\<close>

text \<open>\<open>TestState\<close> of tests/test_state.py declares \<open>name: str\<close> and \<open>age: int\<close>.\<close>

definition TestState :: cls where
  "TestState = Declared ''TestState'' [(''name'', Plain PyStr), (''age'', Plain PyInt)]"

text \<open>\<open>TestState(name="John", age=30)\<close> of \<open>test_type_validation\<close>,
  \<open>StateSchema(test_key="original")\<close> of \<open>test_immutability\<close>, \<open>GraphState()\<close>, and
  an instance of the base class with the bindings of \<open>GraphState()\<close>.\<close>

definition john :: state where
  "john = \<lparr>cls = TestState, data = [(''name'', VStr ''John''), (''age'', VInt 30)]\<rparr>"

definition original :: state where
  "original = \<lparr>cls = StateSchema, data = [(''test_key'', VStr ''original'')]\<rparr>"

definition default_graph_state :: state where
  "default_graph_state =
     \<lparr>cls = GraphState,
      data = [(''current_node'', VStr []), (''next_node'', VStr []),
              (''context'', VDict []), (''results'', VDict [])]\<rparr>"

definition plain_graph_state :: state where
  "plain_graph_state = \<lparr>cls = StateSchema, data = data default_graph_state\<rparr>"

section \<open>The edge loop and the traversal loop\<close>

lemma next_nodes_loop_eq:
  "next_nodes_loop es i cur st log nxt =
     (log @ map (\<lambda>j. Evaluated (i + j) st) [j \<leftarrow> [0..<length es]. source (es ! j) = cur],
      nxt @ map target [e \<leftarrow> es. source e = cur \<and> should_follow e st])"
proof (induction es arbitrary: i log nxt)
  case Nil
  then show ?case by simp
next
  case (Cons e es)
  have upt: "[0..<length (e # es)] = 0 # map Suc [0..<length es]"
    by (simp add: upt_conv_Cons map_Suc_upt del: upt_Suc)
  show ?case
    unfolding upt by (simp add: Cons.IH filter_map comp_def)
qed

lemma get_next_nodes_log_eq:
  "get_next_nodes_log g cur st =
     (map (\<lambda>j. Evaluated j st) [j \<leftarrow> [0..<length (edges g)]. source (edges g ! j) = cur],
      map target [e \<leftarrow> edges g. source e = cur \<and> should_follow e st])"
  by (simp add: get_next_nodes_log_def next_nodes_loop_eq)

lemma execute_loop_prefix:
  "execute_loop g st cur vis (pre @ log) =
     (case execute_loop g st cur vis log of (g', tr, r) \<Rightarrow> (g', pre @ tr, r))"
proof (induction g st cur vis log arbitrary: pre rule: execute_loop.induct)
  case (1 g st cur vis log)
  show ?case
  proof (cases "cur \<in> vis")
    case True
    then show ?thesis
      by (subst execute_loop.simps, subst (2) execute_loop.simps) simp
  next
    case fresh: False
    show ?thesis
    proof (cases "map_of (nodes g) cur")
      case None
      with fresh show ?thesis
        by (subst execute_loop.simps, subst (2) execute_loop.simps) simp
    next
      case (Some nd)
      show ?thesis
      proof (cases "Node_execute nd st")
        case (Inl e)
        with fresh Some show ?thesis
          by (subst execute_loop.simps, subst (2) execute_loop.simps) simp
      next
        case (Inr st')
        obtain evals nxt where gn: "get_next_nodes_log g cur st' = (evals, nxt)"
          by (cases "get_next_nodes_log g cur st'")
        show ?thesis
        proof (cases nxt)
          case Nil
          with fresh Some Inr gn show ?thesis
            by (subst execute_loop.simps, subst (2) execute_loop.simps) simp
        next
          case (Cons n rest)
          have "execute_loop g st' n (insert cur vis) (pre @ log @ Executed cur st # evals) =
                (case execute_loop g st' n (insert cur vis) (log @ Executed cur st # evals) of
                   (g', tr, r) \<Rightarrow> (g', pre @ tr, r))"
            using "1.IH"[OF fresh Some Inr gn[symmetric] Cons, of pre] by simp
          with fresh Some Inr gn Cons show ?thesis
            by (subst execute_loop.simps, subst (2) execute_loop.simps) simp
        qed
      qed
    qed
  qed
qed


lemma execute_loop_visited:
  "cur \<in> vis \<Longrightarrow>
   execute_loop g st cur vis log =
     (g, log, Inl (ValueError (''Cycle detected: node '' @ quoted cur @ '' already visited'')))"
  by (subst execute_loop.simps) simp

lemma execute_loop_missing:
  "cur \<notin> vis \<Longrightarrow> map_of (nodes g) cur = None \<Longrightarrow>
   execute_loop g st cur vis log =
     (g, log, Inl (ValueError (''Node '' @ quoted cur @ '' not found'')))"
  by (subst execute_loop.simps) simp

lemma execute_loop_raise:
  "cur \<notin> vis \<Longrightarrow> map_of (nodes g) cur = Some nd \<Longrightarrow> Node_execute nd st = Inl e \<Longrightarrow>
   execute_loop g st cur vis log = (g, log @ [Executed cur st], Inl e)"
  by (subst execute_loop.simps) simp

lemma execute_loop_stop:
  "cur \<notin> vis \<Longrightarrow> map_of (nodes g) cur = Some nd \<Longrightarrow> Node_execute nd st = Inr st' \<Longrightarrow>
   get_next_nodes g cur st' = [] \<Longrightarrow>
   execute_loop g st cur vis log =
     (g, log @ Executed cur st # fst (get_next_nodes_log g cur st'), Inr st')"
  by (subst execute_loop.simps) (auto simp: get_next_nodes_def split: prod.splits)

lemma execute_loop_step:
  "cur \<notin> vis \<Longrightarrow> map_of (nodes g) cur = Some nd \<Longrightarrow> Node_execute nd st = Inr st' \<Longrightarrow>
   get_next_nodes g cur st' = n # rest \<Longrightarrow>
   execute_loop g st cur vis log =
     execute_loop g st' n (insert cur vis)
       (log @ Executed cur st # fst (get_next_nodes_log g cur st'))"
  by (subst execute_loop.simps) (auto simp: get_next_nodes_def split: prod.splits)

lemma get_next_nodes_eq:
  "get_next_nodes g cur st = map target [e \<leftarrow> edges g. source e = cur \<and> should_follow e st]"
  by (simp add: get_next_nodes_def get_next_nodes_log_eq)

lemma execute_loop_graph: "fst (execute_loop g st cur vis log) = g"
proof (induction g st cur vis log rule: execute_loop.induct)
  case (1 g st cur vis log)
  show ?case
    by (subst execute_loop.simps)
       (auto split: option.splits sum.splits prod.splits list.splits
             dest: "1.IH"[OF _ _ _ sym])
qed

lemma executed_names_append:
  "executed_names (a @ b) = executed_names a @ executed_names b"
  by (induction a rule: executed_names.induct) simp_all

lemma executed_names_evals: "executed_names (map (\<lambda>j. Evaluated j st) js) = []"
  by (induction js) simp_all

lemma executed_names_log: "executed_names (fst (get_next_nodes_log g cur st)) = []"
  by (simp add: get_next_nodes_log_eq executed_names_evals)

lemma execute_loop_names:
  "\<exists>ns. executed_names (fst (snd (execute_loop g st cur vis log))) = executed_names log @ ns
        \<and> distinct ns \<and> set ns \<subseteq> fst ` set (nodes g) - vis"
proof (induction g st cur vis log rule: execute_loop.induct)
  case (1 g st cur vis log)
  show ?case
  proof (cases "cur \<in> vis")
    case True
    then show ?thesis by (simp add: execute_loop_visited)
  next
    case fresh: False
    show ?thesis
    proof (cases "map_of (nodes g) cur")
      case None
      with fresh show ?thesis by (simp add: execute_loop_missing)
    next
      case (Some nd)
      then have reg: "cur \<in> fst ` set (nodes g)"
        by (metis domI dom_map_of_conv_image_fst)
      show ?thesis
      proof (cases "Node_execute nd st")
        case (Inl e)
        have "executed_names (log @ [Executed cur st]) = executed_names log @ [cur]"
          by (simp add: executed_names_append)
        with fresh Some Inl reg show ?thesis
          by (simp add: execute_loop_raise[OF fresh Some Inl])
      next
        case (Inr st')
        obtain evals nxt where gn: "get_next_nodes_log g cur st' = (evals, nxt)"
          by (cases "get_next_nodes_log g cur st'")
        then have ev: "executed_names evals = []"
          using executed_names_log[of g cur st'] by simp
        have nm: "executed_names (log @ Executed cur st # evals) = executed_names log @ [cur]"
          by (simp add: executed_names_append ev)
        show ?thesis
        proof (cases nxt)
          case Nil
          then have "get_next_nodes g cur st' = []" by (simp add: get_next_nodes_def gn)
          from execute_loop_stop[OF fresh Some Inr this] nm fresh reg gn
          show ?thesis by simp
        next
          case (Cons n rest)
          then have nx: "get_next_nodes g cur st' = n # rest"
            by (simp add: get_next_nodes_def gn)
          from "1.IH"[OF fresh Some Inr gn[symmetric] Cons]
          obtain ns where ns:
            "executed_names (fst (snd (execute_loop g st' n (insert cur vis)
                (log @ Executed cur st # evals)))) = executed_names (log @ Executed cur st # evals) @ ns"
            "distinct ns" "set ns \<subseteq> fst ` set (nodes g) - insert cur vis"
            by blast
          have "executed_names (fst (snd (execute_loop g st cur vis log)))
                = executed_names log @ (cur # ns)"
            using execute_loop_step[OF fresh Some Inr nx, of log] ns(1) nm gn by simp
          moreover have "distinct (cur # ns)" using ns(2,3) by auto
          moreover have "set (cur # ns) \<subseteq> fst ` set (nodes g) - vis"
            using ns(3) fresh reg by auto
          ultimately show ?thesis by blast
        qed
      qed
    qed
  qed
qed

lemma cycle_graph_built:
  "(case add_node (Graph_init ''test_graph'') ''node1'' test_func of Inl e \<Rightarrow> Inl e | Inr g1 \<Rightarrow>
    (case add_node g1 ''node2'' test_func of Inl e \<Rightarrow> Inl e | Inr g2 \<Rightarrow>
    (case add_edge g2 ''node1'' ''node2'' None of Inl e \<Rightarrow> Inl e | Inr g3 \<Rightarrow>
     add_edge g3 ''node2'' ''node1'' None))) = Inr cycle_graph"
  by (simp add: add_node_def add_edge_def Graph_init_def cycle_graph_def)

lemma cycle_run:
  "execute cycle_graph empty_state =
     (cycle_graph,
      [Executed ''node1'' empty_state, Evaluated 0 empty_state,
       Executed ''node2'' empty_state, Evaluated 1 empty_state],
      Inl (ValueError (''Cycle detected: node '' @ quoted ''node1'' @ '' already visited'')))"
  by (simp add: execute_def cycle_graph_def execute_loop.simps get_next_nodes_log_def
      Node_execute_def should_follow_def test_func_def)

lemma execute_loop_log:
  "\<exists>tr r. execute_loop g st cur vis log = (g, log @ tr, r)"
proof -
  obtain g' tr r where run: "execute_loop g st cur vis [] = (g', tr, r)"
    by (cases "execute_loop g st cur vis []")
  have "g' = g" using execute_loop_graph[of g st cur vis "[]"] run by simp
  with run execute_loop_prefix[of g st cur vis log "[]"] show ?thesis by simp
qed

lemma loop_state_Suc:
  assumes "loop_state g s (Suc k) = Some (st, cur, vis, log)"
  obtains st0 cur0 vis0 log0 nd rest where
    "loop_state g s k = Some (st0, cur0, vis0, log0)" "cur0 \<notin> vis0"
    "map_of (nodes g) cur0 = Some nd" "Node_execute nd st0 = Inr st"
    "get_next_nodes g cur0 st = cur # rest"
    "vis = insert cur0 vis0"
    "log = log0 @ Executed cur0 st0 # fst (get_next_nodes_log g cur0 st)"
  using assms
  by (auto simp: get_next_nodes_def
      split: option.splits if_splits sum.splits prod.splits list.splits)

lemma loop_state_run:
  "loop_state g s k = Some (st, cur, vis, log) \<Longrightarrow>
   execute g s = execute_loop g st cur vis log"
proof (induction k arbitrary: st cur vis log)
  case 0
  then show ?case by (auto simp: execute_def split: option.splits)
next
  case (Suc k)
  from Suc.prems obtain st0 cur0 vis0 log0 nd rest where
    prev: "loop_state g s k = Some (st0, cur0, vis0, log0)" and fresh: "cur0 \<notin> vis0"
    and found: "map_of (nodes g) cur0 = Some nd" and ran: "Node_execute nd st0 = Inr st"
    and nxt: "get_next_nodes g cur0 st = cur # rest"
    and vis: "vis = insert cur0 vis0"
    and log: "log = log0 @ Executed cur0 st0 # fst (get_next_nodes_log g cur0 st)"
    by (rule loop_state_Suc)
  from Suc.IH[OF prev] have "execute g s = execute_loop g st0 cur0 vis0 log0" .
  also have "\<dots> = execute_loop g st cur vis log"
    unfolding vis log by (rule execute_loop_step[OF fresh found ran nxt])
  finally show ?case .
qed

lemma loop_state_visited:
  "loop_state g s k = Some (st, cur, vis, log) \<Longrightarrow> vis = set (executed_names log)"
proof (induction k arbitrary: st cur vis log)
  case 0
  then show ?case by (auto split: option.splits)
next
  case (Suc k)
  from Suc.prems obtain st0 cur0 vis0 log0 nd rest where
    prev: "loop_state g s k = Some (st0, cur0, vis0, log0)"
    and vis: "vis = insert cur0 vis0"
    and log: "log = log0 @ Executed cur0 st0 # fst (get_next_nodes_log g cur0 st)"
    by (rule loop_state_Suc)
  from Suc.IH[OF prev] show ?case
    unfolding vis log by (simp add: executed_names_append executed_names_log)
qed

lemmas state_simps =
  StateSchema_set_def StateSchema_get_def StateSchema_init_def validate_types_def
  deepcopy_def Let_def

section \<open>Equality of values\<close>

lemma py_eq_dict_iff:
  "py_eq (VDict xs) (VDict ys) \<longleftrightarrow>
     dom (map_of xs) = dom (map_of ys) \<and>
     (\<forall>k v w. map_of xs k = Some v \<longrightarrow> map_of ys k = Some w \<longrightarrow> py_eq v w)"
proof -
  have d: "\<And>zs :: (string \<times> pyval) list. set (map fst zs) = dom (map_of zs)"
    by (simp add: dom_map_of_conv_image_fst)
  show ?thesis
    unfolding py_eq.simps d
    by (auto split: option.splits)
qed

lemma py_eq_refl: "py_eq v v"
proof (induction v)
  case (VList xs)
  then show ?case by (simp add: list_all2_same)
next
  case (VDict xs)
  have "\<And>k v. map_of xs k = Some v \<Longrightarrow> py_eq v v"
  proof -
    fix k v assume "map_of xs k = Some v"
    then have "(k, v) \<in> set xs" by (rule map_of_SomeD)
    then show "py_eq v v" using VDict.IH[of "(k, v)" v] by simp
  qed
  then show ?case unfolding py_eq_dict_iff by auto
qed simp_all

lemma py_eq_sym: "py_eq v w \<Longrightarrow> py_eq w v"
proof (induction v arbitrary: w)
  case (VList xs)
  then obtain ys where w: "w = VList ys" by (cases w) auto
  from VList.prems w have "list_all2 py_eq xs ys" by simp
  then have "list_all2 py_eq ys xs"
    using VList.IH by (induction rule: list_all2_induct) auto
  with w show ?case by simp
next
  case (VDict xs)
  then obtain ys where w: "w = VDict ys" by (cases w) auto
  have ih: "\<And>k v u. map_of xs k = Some v \<Longrightarrow> py_eq v u \<Longrightarrow> py_eq u v"
  proof -
    fix k v u assume a: "map_of xs k = Some v" "py_eq v u"
    then have "(k, v) \<in> set xs" by (simp add: map_of_SomeD)
    with a show "py_eq u v" using VDict.IH[of "(k, v)" v u] by simp
  qed
  from VDict.prems w show ?case
    unfolding w py_eq_dict_iff by (blast intro: ih)
qed (case_tac w; simp; fail)+

lemma dict_eq_sym: "dict_eq xs ys = dict_eq ys xs"
  unfolding dict_eq_def by (blast intro: py_eq_sym)

lemma dict_eq_refl: "dict_eq xs xs"
  unfolding dict_eq_def by (rule py_eq_refl)

section \<open>Validation\<close>

lemma distinct_annotations: "distinct (map fst (annotations_dict anns))"
proof -
  have "distinct (map fst acc) \<Longrightarrow> distinct (map fst (fold (\<lambda>(k, t). AList.update k t) anns acc))"
    for acc :: "(string \<times> hint) list"
    by (induction anns arbitrary: acc) (auto simp: distinct_update)
  then show ?thesis by (simp add: annotations_dict_def)
qed

lemma distinct_hints: "distinct (map fst (get_type_hints c))"
  by (cases c) (simp_all add: distinct_annotations)

lemma validate_fields_ok_iff:
  "validate_fields hs d = Inr () \<longleftrightarrow>
     (\<forall>(f, t) \<in> set hs. \<forall>v. map_of d f = Some v \<longrightarrow> passes_check v t)"
  by (induction hs d rule: validate_fields.induct) (auto split: option.splits sum.splits)

lemma is_valid_type_error: "is_valid_type v t = Inl e \<Longrightarrow> \<exists>m. e = TypeError m"
  by (cases t) (auto simp: is_valid_type_def)

lemma validate_fields_error:
  "validate_fields hs d = Inl e \<Longrightarrow>
     (\<exists>m. e = TypeError m)
     \<or> (\<exists>f t v. e = StateValidationError f t (type_of v) \<and> (f, t) \<in> set hs
          \<and> map_of d f = Some v \<and> is_valid_type v t = Inr False)"
proof (induction hs)
  case Nil
  then show ?case by simp
next
  case (Cons h hs)
  obtain f t where h: "h = (f, t)" by (cases h)
  show ?case
  proof (cases "map_of d f")
    case None
    with Cons h show ?thesis by auto
  next
    case (Some v)
    show ?thesis
    proof (cases "is_valid_type v t")
      case (Inl e')
      with Cons.prems h Some show ?thesis by (auto dest: is_valid_type_error)
    next
      case (Inr ok)
      show ?thesis
      proof (cases ok)
        case True
        with Cons h Some Inr show ?thesis by auto
      next
        case False
        with Cons.prems h Some Inr have "e = StateValidationError f t (type_of v)" by simp
        with h Some Inr False show ?thesis by auto
      qed
    qed
  qed
qed

lemma validate_fields_update:
  assumes "distinct (map fst hs)" and "validate_fields hs d = Inr ()"
    and "\<And>t. map_of hs k = Some t \<Longrightarrow> passes_check v t"
  shows "validate_fields hs (AList.update k v d) = Inr ()"
  unfolding validate_fields_ok_iff
proof (clarify)
  fix f t w assume ft: "(f, t) \<in> set hs" and w: "map_of (AList.update k v d) f = Some w"
  show "passes_check w t"
  proof (cases "f = k")
    case True
    with w have "w = v" by (simp add: update_conv')
    moreover from ft assms(1) True have "map_of hs k = Some t" by simp
    ultimately show ?thesis using assms(3) by simp
  next
    case False
    with w have "map_of d f = Some w" by (simp add: update_conv')
    with assms(2) ft show ?thesis unfolding validate_fields_ok_iff by blast
  qed
qed

lemma check_keywords_error: "check_keywords ps d = Inl e \<Longrightarrow> \<exists>m. e = TypeError m"
  by (induction ps d rule: check_keywords.induct) (auto split: if_splits option.splits)

lemma check_keywords_None: "check_keywords None d = Inr () \<longleftrightarrow> ''self'' \<notin> fst ` set d"
  by (induction d) (auto split: if_splits)

lemma check_keywords_Some:
  "check_keywords (Some ps) d = Inr () \<longleftrightarrow> ''self'' \<notin> fst ` set d \<and> fst ` set d \<subseteq> set ps"
  by (induction d) (auto split: if_splits)


section \<open>Constructors\<close>

lemma valid_list_iff: "passes_check w (Plain PyList) \<longleftrightarrow> (\<exists>xs. w = VList xs)"
  by (cases w) (simp_all add: is_valid_type_def isinstance_def)

lemma valid_dict_iff: "passes_check w (DictOf a b) \<longleftrightarrow> (\<exists>xs. w = VDict xs)"
  by (cases w) (simp_all add: is_valid_type_def isinstance_def)

lemma py_or_list: "py_or (VList xs) (VList []) = VList xs"
  by (simp add: py_or_def)

lemma py_or_dict: "py_or (VDict xs) (VDict []) = VDict xs"
  by (simp add: py_or_def)

lemma py_or_None: "py_or VNone w = w"
  by (simp add: py_or_def)

lemma StateSchema_init_ok:
  "StateSchema_init c kw = Inr s \<longleftrightarrow>
     validate_fields (get_type_hints c) kw = Inr () \<and> s = \<lparr>cls = c, data = kw\<rparr>"
  by (auto simp: StateSchema_init_def validate_types_def deepcopy_def split: sum.splits)

lemma StateSchema_init_error:
  "StateSchema_init c kw = Inl e \<longleftrightarrow> validate_fields (get_type_hints c) kw = Inl e"
  by (auto simp: StateSchema_init_def validate_types_def split: sum.splits)

lemma new_eq:
  "new c kw =
     (case check_keywords (constructor_params c) kw of
        Inl e \<Rightarrow> Inl e
      | Inr _ \<Rightarrow> StateSchema_init c (base_kwargs c kw))"
  by (cases c) (auto simp: AgentState_init_def GraphState_init_def split: sum.splits)

lemma new_ok:
  "new c kw = Inr s \<longleftrightarrow>
     check_keywords (constructor_params c) kw = Inr ()
     \<and> validate_fields (get_type_hints c) (base_kwargs c kw) = Inr ()
     \<and> s = \<lparr>cls = c, data = base_kwargs c kw\<rparr>"
  unfolding new_eq by (auto simp: StateSchema_init_ok split: sum.splits)

lemma new_error:
  "new c kw = Inl e \<longleftrightarrow>
     check_keywords (constructor_params c) kw = Inl e
     \<or> (check_keywords (constructor_params c) kw = Inr ()
        \<and> validate_fields (get_type_hints c) (base_kwargs c kw) = Inl e)"
  unfolding new_eq by (auto simp: StateSchema_init_error split: sum.splits)

lemma base_kwargs_idem: "base_kwargs c (base_kwargs c kw) = base_kwargs c kw"
  by (cases c) (simp_all add: arg_or_def py_or_def)

lemma base_kwargs_keywords:
  "check_keywords (constructor_params c) kw = Inr () \<Longrightarrow>
   check_keywords (constructor_params c) (base_kwargs c kw) = Inr ()"
  by (cases c) simp_all

lemma or_list_valid:
  "(\<And>w. map_of d f = Some w \<Longrightarrow> passes_check w (Plain PyList)) \<Longrightarrow>
   passes_check (py_or (arg_or d f VNone) (VList [])) (Plain PyList)"
  by (cases "map_of d f") (auto simp: arg_or_def py_or_def valid_list_iff)

lemma or_dict_valid:
  "(\<And>w. map_of d f = Some w \<Longrightarrow> passes_check w (DictOf a b)) \<Longrightarrow>
   passes_check (py_or (arg_or d f VNone) (VDict [])) (DictOf a b)"
  by (cases "map_of d f") (auto simp: arg_or_def py_or_def valid_dict_iff)

lemma arg_valid:
  "(\<And>w. map_of d f = Some w \<Longrightarrow> passes_check w t) \<Longrightarrow> passes_check dflt t \<Longrightarrow>
   passes_check (arg_or d f dflt) t"
  by (cases "map_of d f") (auto simp: arg_or_def)

lemma base_kwargs_valid:
  assumes "validate_fields (get_type_hints c) d = Inr ()"
  shows "validate_fields (get_type_hints c) (base_kwargs c d) = Inr ()"
proof -
  from assms have v: "\<And>f t w. map_of d f = Some w \<Longrightarrow> (f, t) \<in> set (get_type_hints c) \<Longrightarrow>
      passes_check w t"
    unfolding validate_fields_ok_iff by blast
  show ?thesis
  proof (cases c)
    case AgentState
    have 1: "passes_check (py_or (arg_or d ''messages'' VNone) (VList [])) (Plain PyList)"
      by (rule or_list_valid, erule v) (simp add: AgentState)
    have 2: "passes_check (py_or (arg_or d ''tool_calls'' VNone) (VList [])) (Plain PyList)"
      by (rule or_list_valid, erule v) (simp add: AgentState)
    have 3: "passes_check (py_or (arg_or d ''intermediate_steps'' VNone) (VList [])) (Plain PyList)"
      by (rule or_list_valid, erule v) (simp add: AgentState)
    have 4: "passes_check (arg_or d ''is_complete'' (VBool False)) (Plain PyBool)"
      by (rule arg_valid, erule v) (simp_all add: AgentState is_valid_type_def isinstance_def)
    from 1 2 3 4 show ?thesis
      unfolding AgentState by simp
  next
    case GraphState
    have 1: "passes_check (arg_or d ''current_node'' (VStr [])) (Plain PyStr)"
      by (rule arg_valid, erule v) (simp_all add: GraphState is_valid_type_def isinstance_def)
    have 2: "passes_check (arg_or d ''next_node'' (VStr [])) (Plain PyStr)"
      by (rule arg_valid, erule v) (simp_all add: GraphState is_valid_type_def isinstance_def)
    have 3: "passes_check (py_or (arg_or d ''context'' VNone) (VDict [])) (DictOf (Of (Plain PyStr)) Any)"
      by (rule or_dict_valid, erule v) (simp add: GraphState)
    have 4: "passes_check (py_or (arg_or d ''results'' VNone) (VDict [])) (DictOf (Of (Plain PyStr)) Any)"
      by (rule or_dict_valid, erule v) (simp add: GraphState)
    from 1 2 3 4 show ?thesis
      unfolding GraphState by simp
  qed (use assms in simp_all)
qed

lemma base_kwargs_binding:
  assumes "check_keywords (constructor_params c) d = Inr ()" and "map_of d k = Some v"
    and "\<And>t. map_of (get_type_hints c) k = Some t \<Longrightarrow> passes_check v t"
  shows "map_of (base_kwargs c d) k = Some v"
proof (cases c)
  case AgentState
  from assms(2) have "k \<in> fst ` set d" by (metis domI dom_map_of_conv_image_fst)
  with assms(1) AgentState
  consider "k = ''messages''" | "k = ''tool_calls''" | "k = ''intermediate_steps''"
    | "k = ''is_complete''"
    by (auto simp: check_keywords_Some)
  then show ?thesis
  proof cases
    case 1
    with assms(3) AgentState obtain xs where "v = VList xs" by (auto simp: valid_list_iff)
    with 1 assms(2) AgentState show ?thesis by (simp add: arg_or_def py_or_list)
  next
    case 2
    with assms(3) AgentState obtain xs where "v = VList xs" by (auto simp: valid_list_iff)
    with 2 assms(2) AgentState show ?thesis by (simp add: arg_or_def py_or_list)
  next
    case 3
    with assms(3) AgentState obtain xs where "v = VList xs" by (auto simp: valid_list_iff)
    with 3 assms(2) AgentState show ?thesis by (simp add: arg_or_def py_or_list)
  next
    case 4
    with assms(2) AgentState show ?thesis by (simp add: arg_or_def)
  qed
next
  case GraphState
  from assms(2) have "k \<in> fst ` set d" by (metis domI dom_map_of_conv_image_fst)
  with assms(1) GraphState
  consider "k = ''current_node''" | "k = ''next_node''" | "k = ''context''" | "k = ''results''"
    by (auto simp: check_keywords_Some)
  then show ?thesis
  proof cases
    case 1
    with assms(2) GraphState show ?thesis by (simp add: arg_or_def)
  next
    case 2
    with assms(2) GraphState show ?thesis by (simp add: arg_or_def)
  next
    case 3
    with assms(3) GraphState obtain xs where "v = VDict xs" by (auto simp: valid_dict_iff)
    with 3 assms(2) GraphState show ?thesis by (simp add: arg_or_def py_or_dict)
  next
    case 4
    with assms(3) GraphState obtain xs where "v = VDict xs" by (auto simp: valid_dict_iff)
    with 4 assms(2) GraphState show ?thesis by (simp add: arg_or_def py_or_dict)
  qed
qed (use assms in simp_all)

lemma new_idem: "new c kw = Inr s \<Longrightarrow> new c (data s) = Inr s"
  by (simp add: new_ok base_kwargs_idem base_kwargs_keywords)

lemma set_result:
  assumes "StateSchema_set s k v = Inr s'"
  shows "cls s' = cls s \<and> map_of (data s') k = Some v"
proof -
  let ?d' = "AList.update k v (data s)"
  from assms have n: "new (cls s) ?d' = Inr s'"
    and ok: "\<And>t. map_of (get_type_hints (cls s)) k = Some t \<Longrightarrow> passes_check v t"
    by (auto simp: StateSchema_set_def Let_def deepcopy_def
        split: option.splits sum.splits if_splits)
  from n have s': "s' = \<lparr>cls = cls s, data = base_kwargs (cls s) ?d'\<rparr>"
    and kw: "check_keywords (constructor_params (cls s)) ?d' = Inr ()"
    by (simp_all add: new_ok)
  have "map_of ?d' k = Some v" by (simp add: update_conv')
  from base_kwargs_binding[OF kw this ok] s' show ?thesis by simp
qed

lemma differs_not_equal:
  assumes "cls s' = cls s" and "map_of (data s') k = Some v"
    and "\<not> py_eq (StateSchema_get s k VNone) v"
  shows "not_equals s s'"
proof -
  have "\<not> dict_eq (data s) (data s')"
  proof
    assume "dict_eq (data s) (data s')"
    then have dom: "dom (map_of (data s)) = dom (map_of (data s'))"
      and vals: "\<And>x w. map_of (data s) k = Some x \<Longrightarrow> map_of (data s') k = Some w \<Longrightarrow> py_eq x w"
      unfolding dict_eq_def py_eq_dict_iff by blast+
    from assms(2) dom obtain x where x: "map_of (data s) k = Some x" by blast
    with assms(3) have "\<not> py_eq x v" by (simp add: StateSchema_get_def)
    with vals[OF x assms(2)] show False by simp
  qed
  with assms(1) show ?thesis
    by (simp add: not_equals_def StateSchema_eq_def issubclass_def)
qed

lemma set_eq_new:
  "StateSchema_set s k v =
     (case map_of (get_type_hints (cls s)) k of
        Some t \<Rightarrow>
          (case is_valid_type v t of
             Inl e \<Rightarrow> Inl e
           | Inr ok \<Rightarrow>
               if \<not> ok then Inl (StateValidationError k t (type_of v))
               else new (cls s) (AList.update k v (data s)))
      | None \<Rightarrow> new (cls s) (AList.update k v (data s)))"
  by (simp add: StateSchema_set_def Let_def deepcopy_def)

lemma new_after_update_no_validation_error:
  assumes built: "new c kw = Inr s"
    and ok: "\<And>t. map_of (get_type_hints c) k = Some t \<Longrightarrow> passes_check v t"
  shows "new c (AList.update k v (data s)) \<noteq> Inl (StateValidationError f t a)"
proof
  assume raised: "new c (AList.update k v (data s)) = Inl (StateValidationError f t a)"
  from built have "validate_fields (get_type_hints c) (data s) = Inr ()"
    by (simp add: new_ok base_kwargs_idem base_kwargs_valid)
  then have "validate_fields (get_type_hints c) (AList.update k v (data s)) = Inr ()"
    by (rule validate_fields_update[OF distinct_hints _ ok])
  then have "validate_fields (get_type_hints c) (base_kwargs c (AList.update k v (data s))) = Inr ()"
    by (rule base_kwargs_valid)
  with raised show False
    by (auto simp: new_error dest: check_keywords_error)
qed

lemma hint_keys_are_params:
  "constructor_params c = Some ps \<Longrightarrow> map_of (get_type_hints c) k = Some t \<Longrightarrow> k \<in> set ps"
  by (cases c) (auto split: if_splits)

lemma base_kwargs_keys:
  "constructor_params c = Some ps \<Longrightarrow> fst ` set (base_kwargs c kw) = set ps"
  by (cases c) auto

lemma new_after_update_keywords:
  assumes built: "new c kw = Inr s" and declared: "map_of (get_type_hints c) k = Some t"
    and k: "k \<noteq> ''self''"
  shows "check_keywords (constructor_params c) (AList.update k v (data s)) = Inr ()"
proof (cases "constructor_params c")
  case None
  from built None have "''self'' \<notin> fst ` set (data s)"
    using base_kwargs_keywords[of c kw] by (simp add: new_ok check_keywords_None)
  with k None show ?thesis
    by (simp add: check_keywords_None dom_update)
next
  case (Some ps)
  from built Some have "''self'' \<notin> fst ` set (data s)" "fst ` set (data s) \<subseteq> set ps"
    using base_kwargs_keywords[of c kw] by (simp_all add: new_ok check_keywords_Some)
  with k Some hint_keys_are_params[OF Some declared] show ?thesis
    by (simp add: check_keywords_Some dom_update)
qed

section \<open>The states of the test-suite are built by the constructors\<close>

lemmas value_simps =
  StateSchema_init_def AgentState_init_def GraphState_init_def validate_types_def
  deepcopy_def arg_or_def py_or_def is_valid_type_def isinstance_def Let_def

lemma TestState_hints:
  "get_type_hints TestState = [(''name'', Plain PyStr), (''age'', Plain PyInt)]"
  by (simp add: TestState_def annotations_dict_def)

lemma john_built:
  "new TestState [(''name'', VStr ''John''), (''age'', VInt 30)] = Inr john"
  by (simp add: john_def TestState_def annotations_dict_def value_simps)

lemma original_built: "new StateSchema [(''test_key'', VStr ''original'')] = Inr original"
  by (simp add: original_def value_simps)

lemma default_graph_state_built: "new GraphState [] = Inr default_graph_state"
  by (simp add: default_graph_state_def value_simps)

lemma plain_graph_state_built:
  "new StateSchema (data default_graph_state) = Inr plain_graph_state"
  by (simp add: plain_graph_state_def default_graph_state_def value_simps)

lemma eq_method_not_symmetric:
  "StateSchema_eq plain_graph_state default_graph_state
   \<and> \<not> StateSchema_eq default_graph_state plain_graph_state"
  by (simp add: StateSchema_eq_def issubclass_def plain_graph_state_def
      default_graph_state_def dict_eq_refl)

section \<open>Building a graph\<close>

text \<open>
  C5. Structural errors are raised by the call that causes them: \<open>add_node\<close> raises
  exactly when the name is already registered, and otherwise leaves the entry point as
  it was unless none was set, so that the first node added to a new graph becomes the
  entry point; \<open>add_edge\<close> raises exactly when the source or the target is not
  registered; \<open>set_entry_point\<close> raises exactly when the name is not registered;
  \<open>execute\<close> on a graph without entry point raises before any node is executed.
\<close>

theorem structural_errors_at_call_site:
  "(isl (add_node g n f) \<longleftrightarrow> n \<in> fst ` set (nodes g))
   \<and> (n \<in> fst ` set (nodes g) \<longrightarrow>
        add_node g n f = Inl (ValueError (''Node '' @ quoted n @ '' already exists'')))
   \<and> (\<forall>g'. add_node g n f = Inr g' \<longrightarrow>
        entry_point g' = (if entry_point g = None then Some n else entry_point g))
   \<and> (\<exists>g'. add_node (Graph_init gn) n f = Inr g' \<and> entry_point g' = Some n)
   \<and> (isl (add_edge g src tgt c) \<longleftrightarrow>
        src \<notin> fst ` set (nodes g) \<or> tgt \<notin> fst ` set (nodes g))
   \<and> (isl (set_entry_point g n) \<longleftrightarrow> n \<notin> fst ` set (nodes g))
   \<and> (entry_point g = None \<longrightarrow>
        execute g s = (g, [], Inl (ValueError ''Graph has no entry point'')))"
  by (auto simp: add_node_def add_edge_def set_entry_point_def Graph_init_def execute_def)


theorem structural_errors_at_call_site_witness:
  "add_node cycle_graph ''node1'' test_func
     = Inl (ValueError (''Node '' @ quoted ''node1'' @ '' already exists''))
   \<and> (\<exists>g'. add_node (Graph_init ''test_graph'') ''node1'' test_func = Inr g'
          \<and> entry_point g' = Some ''node1'')
   \<and> isl (add_edge cycle_graph ''node1'' ''node3'' None)
   \<and> isl (set_entry_point cycle_graph ''node3'')
   \<and> execute (Graph_init ''test_graph'') empty_state
       = (Graph_init ''test_graph'', [], Inl (ValueError ''Graph has no entry point''))"
  using structural_errors_at_call_site[of cycle_graph "''node1''" test_func "''test_graph''"
          "''node1''" "''node3''" None empty_state]
        structural_errors_at_call_site[of "Graph_init ''test_graph''" "''node3''" test_func
          "''test_graph''" "''node1''" "''node3''" None empty_state]
        structural_errors_at_call_site[of cycle_graph "''node3''" test_func "''test_graph''"
          "''node1''" "''node3''" None empty_state]
  by (simp add: cycle_graph_def Graph_init_def)

section \<open>Running a graph\<close>

text \<open>
  C10. \<open>execute\<close> and \<open>validate\<close> leave the graph as it was: the node mapping, the
  edge sequence with its order and the entry point after the call, whether it returned
  or raised, are those before the call.
\<close>

theorem execute_and_validate_leave_graph_unchanged:
  "fst (execute g s) = g \<and> fst (validate g) = g"
  by (simp add: execute_def validate_def Let_def execute_loop_graph split: option.splits)


theorem execute_and_validate_leave_graph_unchanged_witness:
  "fst (execute cycle_graph empty_state) = cycle_graph
   \<and> fst (validate cycle_graph) = cycle_graph"
  using execute_and_validate_leave_graph_unchanged[of cycle_graph empty_state]
  by simp

text \<open>
  C9. \<open>execute\<close> terminates (the loop is a total function, by the termination proof of
  \<open>execute_loop\<close>): every iteration ends the run or executes a registered node that
  was not executed before, so no node is executed twice and the number of node
  executions is at most the number of registered nodes.
\<close>

theorem execute_runs_each_node_at_most_once:
  "\<exists>tr r. execute g s = (g, tr, r)
     \<and> distinct (executed_names tr)
     \<and> set (executed_names tr) \<subseteq> fst ` set (nodes g)
     \<and> length (executed_names tr) \<le> card (fst ` set (nodes g))
     \<and> length (executed_names tr) \<le> length (nodes g)"
proof (cases "entry_point g")
  case None
  then show ?thesis by (simp add: execute_def)
next
  case (Some ep)
  obtain g' tr r where run: "execute_loop g s ep {} [] = (g', tr, r)"
    by (cases "execute_loop g s ep {} []")
  have g': "g' = g" using execute_loop_graph[of g s ep "{}" "[]"] run by simp
  from execute_loop_names[of g s ep "{}" "[]"] run
  have d: "distinct (executed_names tr)" and sub: "set (executed_names tr) \<subseteq> fst ` set (nodes g)"
    by auto
  have "length (executed_names tr) = card (set (executed_names tr))"
    using d by (simp add: distinct_card)
  also have "\<dots> \<le> card (fst ` set (nodes g))"
    using sub by (intro card_mono) auto
  finally have c: "length (executed_names tr) \<le> card (fst ` set (nodes g))" .
  have "card (fst ` set (nodes g)) \<le> length (nodes g)"
    by (metis card_image_le card_length le_trans List.finite_set)
  with c d sub run g' Some show ?thesis by (simp add: execute_def)
qed


theorem execute_runs_each_node_at_most_once_witness:
  "\<exists>tr r. execute cycle_graph empty_state = (cycle_graph, tr, r)
      \<and> length (executed_names tr) \<le> 2"
  using execute_runs_each_node_at_most_once[of cycle_graph empty_state]
  by (auto simp: cycle_graph_def)

text \<open>
  C1. An edge qualifies on a state when it has no condition or its condition is true
  on that state. When the node at hand has returned and at least one outgoing edge
  qualifies on the state it returned, the next nodes are the targets of the qualifying
  edges in the order the edges were added, and the loop continues at the target of the
  first of them, whatever the other qualifying edges are. In particular, with two
  unconditional edges from the node, added \<open>X\<close> then \<open>Y\<close>, the loop continues at the
  target of \<open>X\<close>.
\<close>

theorem first_added_qualifying_edge_is_taken:
  assumes "cur \<notin> vis" and "map_of (nodes g) cur = Some nd"
    and "Node_execute nd st = Inr st'"
  shows
    "([e \<leftarrow> edges g. source e = cur
          \<and> (case condition e of None \<Rightarrow> True | Some c \<Rightarrow> c st')] = e1 # others \<longrightarrow>
        get_next_nodes g cur st' = target e1 # map target others
        \<and> execute_loop g st cur vis log =
            execute_loop g st' (target e1) (insert cur vis)
              (log @ Executed cur st # fst (get_next_nodes_log g cur st')))
     \<and> (edges g = [eX, eY] \<and> source eX = cur \<and> source eY = cur
          \<and> condition eX = None \<and> condition eY = None \<longrightarrow>
        get_next_nodes g cur st' = [target eX, target eY]
        \<and> execute_loop g st cur vis log =
            execute_loop g st' (target eX) (insert cur vis)
              (log @ [Executed cur st, Evaluated 0 st', Evaluated 1 st']))"
proof (intro conjI impI)
  assume q: "[e \<leftarrow> edges g. source e = cur
          \<and> (case condition e of None \<Rightarrow> True | Some c \<Rightarrow> c st')] = e1 # others"
  then show nx: "get_next_nodes g cur st' = target e1 # map target others"
    by (simp add: get_next_nodes_eq should_follow_def)
  show "execute_loop g st cur vis log =
          execute_loop g st' (target e1) (insert cur vis)
            (log @ Executed cur st # fst (get_next_nodes_log g cur st'))"
    by (rule execute_loop_step[OF assms nx])
next
  assume two: "edges g = [eX, eY] \<and> source eX = cur \<and> source eY = cur
          \<and> condition eX = None \<and> condition eY = None"
  then show nx: "get_next_nodes g cur st' = [target eX, target eY]"
    by (simp add: get_next_nodes_eq should_follow_def)
  from two have "fst (get_next_nodes_log g cur st') = [Evaluated 0 st', Evaluated 1 st']"
    by (simp add: get_next_nodes_log_def should_follow_def)
  with execute_loop_step[OF assms nx, of log]
  show "execute_loop g st cur vis log =
          execute_loop g st' (target eX) (insert cur vis)
            (log @ [Executed cur st, Evaluated 0 st', Evaluated 1 st'])"
    by simp
qed

theorem first_added_qualifying_edge_is_taken_witness:
  "get_next_nodes guarded_tie_graph ''start'' empty_state = [''x'', ''y'']
   \<and> execute_loop guarded_tie_graph empty_state ''start'' {} [] =
       execute_loop guarded_tie_graph empty_state ''x'' {''start''}
         [Executed ''start'' empty_state, Evaluated 0 empty_state, Evaluated 1 empty_state,
          Evaluated 2 empty_state]
   \<and> executed_names (fst (snd (execute guarded_tie_graph empty_state))) = [''start'', ''x'']
   \<and> get_next_nodes tie_graph ''start'' empty_state = [''x'', ''y'']
   \<and> execute_loop tie_graph empty_state ''start'' {} [] =
       execute_loop tie_graph empty_state ''x'' {''start''}
         [Executed ''start'' empty_state, Evaluated 0 empty_state, Evaluated 1 empty_state]
   \<and> executed_names (fst (snd (execute tie_graph empty_state))) = [''start'', ''x'']"
proof -
  let ?eX = "\<lparr>source = ''start'', target = ''x'', condition = None\<rparr> :: state edge"
  let ?eY = "\<lparr>source = ''start'', target = ''y'', condition = None\<rparr> :: state edge"
  let ?nd = "\<lparr>name = ''start'', func = test_func\<rparr>"
  have fresh: "''start'' \<notin> ({} :: string set)" by simp
  have ran: "Node_execute ?nd empty_state = Inr empty_state"
    by (simp add: Node_execute_def test_func_def)
  have found_g: "map_of (nodes guarded_tie_graph) ''start'' = Some ?nd"
    by (simp add: guarded_tie_graph_def)
  have qualifying:
    "[e \<leftarrow> edges guarded_tie_graph. source e = ''start''
        \<and> (case condition e of None \<Rightarrow> True | Some c \<Rightarrow> c empty_state)] = ?eX # [?eY]"
    by (simp add: guarded_tie_graph_def always_false_def)
  have evals: "fst (get_next_nodes_log guarded_tie_graph ''start'' empty_state) =
      [Evaluated 0 empty_state, Evaluated 1 empty_state, Evaluated 2 empty_state]"
    by (simp add: get_next_nodes_log_def guarded_tie_graph_def)
  have run_g: "executed_names (fst (snd (execute guarded_tie_graph empty_state))) = [''start'', ''x'']"
    by (simp add: execute_def guarded_tie_graph_def execute_loop.simps get_next_nodes_log_def
        Node_execute_def should_follow_def test_func_def always_false_def)
  from first_added_qualifying_edge_is_taken[OF fresh found_g ran, of ?eX "[?eY]" "[]" ?eX ?eY]
    qualifying
  have "get_next_nodes guarded_tie_graph ''start'' empty_state = target ?eX # map target [?eY]
      \<and> execute_loop guarded_tie_graph empty_state ''start'' {} [] =
          execute_loop guarded_tie_graph empty_state (target ?eX) (insert ''start'' {})
            ([] @ Executed ''start'' empty_state
               # fst (get_next_nodes_log guarded_tie_graph ''start'' empty_state))"
    by blast
  with evals have guarded:
    "get_next_nodes guarded_tie_graph ''start'' empty_state = [''x'', ''y'']
     \<and> execute_loop guarded_tie_graph empty_state ''start'' {} [] =
       execute_loop guarded_tie_graph empty_state ''x'' {''start''}
         [Executed ''start'' empty_state, Evaluated 0 empty_state, Evaluated 1 empty_state,
          Evaluated 2 empty_state]"
    by simp
  have found: "map_of (nodes tie_graph) ''start'' = Some ?nd"
    by (simp add: tie_graph_def)
  have two: "edges tie_graph = [?eX, ?eY] \<and> source ?eX = ''start'' \<and> source ?eY = ''start''
      \<and> condition ?eX = None \<and> condition ?eY = None"
    by (simp add: tie_graph_def)
  have run: "executed_names (fst (snd (execute tie_graph empty_state))) = [''start'', ''x'']"
    by (simp add: execute_def tie_graph_def execute_loop.simps get_next_nodes_log_def
        Node_execute_def should_follow_def test_func_def)
  from first_added_qualifying_edge_is_taken[OF fresh found ran, of ?eX "[?eY]" "[]" ?eX ?eY]
    two
  have "get_next_nodes tie_graph ''start'' empty_state = [target ?eX, target ?eY]
      \<and> execute_loop tie_graph empty_state ''start'' {} [] =
          execute_loop tie_graph empty_state (target ?eX) (insert ''start'' {})
            ([] @ [Executed ''start'' empty_state, Evaluated 0 empty_state,
                   Evaluated 1 empty_state])"
    by blast
  with run guarded run_g show ?thesis by simp
qed

text \<open>
  C4. After the node at hand has returned, \<open>should_follow\<close> is called on every edge
  whose source is that node, in the order the edges were added, and each call receives
  the state the node returned; the next nodes are the targets of the edges that
  qualified on that state. An edge without condition always qualifies.
\<close>

theorem outgoing_edges_evaluated_in_order_on_new_state:
  assumes "cur \<notin> vis" and "map_of (nodes g) cur = Some nd"
    and "Node_execute nd st = Inr st'"
  shows
    "(\<exists>rest r. execute_loop g st cur vis log =
        (g, log @ Executed cur st
              # map (\<lambda>j. Evaluated j st')
                  [j \<leftarrow> [0..<length (edges g)]. source (edges g ! j) = cur]
              @ rest, r))
     \<and> get_next_nodes g cur st' =
         map target [e \<leftarrow> edges g. source e = cur \<and> should_follow e st']
     \<and> (condition e = None \<longrightarrow> should_follow e s)"
proof (intro conjI)
  let ?evals = "map (\<lambda>j. Evaluated j st')
                  [j \<leftarrow> [0..<length (edges g)]. source (edges g ! j) = cur]"
  have ev: "fst (get_next_nodes_log g cur st') = ?evals"
    by (simp add: get_next_nodes_log_eq)
  show "\<exists>rest r. execute_loop g st cur vis log = (g, log @ Executed cur st # ?evals @ rest, r)"
  proof (cases "get_next_nodes g cur st'")
    case Nil
    from execute_loop_stop[OF assms Nil, of log] ev show ?thesis by simp
  next
    case (Cons n ns)
    obtain tr r where
      "execute_loop g st' n (insert cur vis) (log @ Executed cur st # ?evals)
         = (g, (log @ Executed cur st # ?evals) @ tr, r)"
      using execute_loop_log[of g st' n "insert cur vis" "log @ Executed cur st # ?evals"]
      by blast
    with execute_loop_step[OF assms Cons, of log] ev show ?thesis by simp
  qed
  show "get_next_nodes g cur st' =
         map target [e \<leftarrow> edges g. source e = cur \<and> should_follow e st']"
    by (rule get_next_nodes_eq)
  show "condition e = None \<longrightarrow> should_follow e s"
    by (simp add: should_follow_def)
qed

theorem outgoing_edges_evaluated_in_order_on_new_state_witness:
  "(\<exists>rest r. execute_loop scenario_graph \<lparr>cls = StateSchema, data = [(''a'', VInt 1)]\<rparr>
        ''mid'' {''start''} [] =
      (scenario_graph,
       Executed ''mid'' \<lparr>cls = StateSchema, data = [(''a'', VInt 1)]\<rparr>
         # Evaluated 1 \<lparr>cls = StateSchema, data = [(''a'', VInt 1), (''b'', VInt 2)]\<rparr>
         # rest, r))
   \<and> get_next_nodes scenario_graph ''mid''
        \<lparr>cls = StateSchema, data = [(''a'', VInt 1), (''b'', VInt 2)]\<rparr> = [''end'']
   \<and> get_next_nodes scenario_graph ''mid'' \<lparr>cls = StateSchema, data = [(''a'', VInt 1)]\<rparr> = []
   \<and> snd (snd (execute scenario_graph empty_state))
       = Inr \<lparr>cls = StateSchema, data = [(''a'', VInt 1), (''b'', VInt 2), (''c'', VInt 3)]\<rparr>"
proof -
  have run: "snd (snd (execute scenario_graph empty_state))
       = Inr \<lparr>cls = StateSchema, data = [(''a'', VInt 1), (''b'', VInt 2), (''c'', VInt 3)]\<rparr>"
    by (simp add: execute_def scenario_graph_def execute_loop.simps get_next_nodes_log_def
        Node_execute_def should_follow_def key_equals_def empty_state_def state_simps)
  have pre: "get_next_nodes scenario_graph ''mid'' \<lparr>cls = StateSchema, data = [(''a'', VInt 1)]\<rparr> = []"
    by (simp add: get_next_nodes_def get_next_nodes_log_def scenario_graph_def
        should_follow_def key_equals_def state_simps)
  show ?thesis
    using outgoing_edges_evaluated_in_order_on_new_state[of "''mid''" "{''start''}" scenario_graph
        "\<lparr>name = ''mid'', func = (\<lambda>s. StateSchema_set s ''b'' (VInt 2))\<rparr>"
        "\<lparr>cls = StateSchema, data = [(''a'', VInt 1)]\<rparr>"
        "\<lparr>cls = StateSchema, data = [(''a'', VInt 1), (''b'', VInt 2)]\<rparr>"
        "[]" "\<lparr>source = ''start'', target = ''mid'', condition = None\<rparr>" empty_state]
      run pre
    by (simp add: scenario_graph_def Node_execute_def should_follow_def key_equals_def
        state_simps)
qed

text \<open>
  C2, as the code has it. Whenever the loop of \<open>execute\<close> arrives, at the head of any
  iteration, at a node that was already executed in this run (the visited set is the
  set of the nodes executed so far), \<open>execute\<close> raises the cycle error for that node:
  its record of calls is the record at that moment, so nothing further is executed,
  and it returns no state. A graph with the two edges \<open>A -> B\<close> and \<open>B -> A\<close> and
  entry point \<open>A\<close> raises it after executing \<open>A\<close> then \<open>B\<close> when both nodes return
  and each edge qualifies on the state its source returned. An edge whose condition
  fails is not followed: with \<open>always_false\<close> on \<open>A -> B\<close> the run ends after \<open>A\<close>
  and returns its state.
\<close>

theorem revisit_raises_cycle_error:
  "(loop_state g s k = Some (st, cur, vis, log) \<longrightarrow> vis = set (executed_names log))
   \<and> (loop_state g s k = Some (st, cur, vis, log) \<and> cur \<in> set (executed_names log) \<longrightarrow>
        execute g s =
          (g, log, Inl (ValueError (''Cycle detected: node '' @ quoted cur @ '' already visited''))))
   \<and> (a \<noteq> b \<and> entry_point g = Some a
        \<and> map_of (nodes g) a = Some na \<and> map_of (nodes g) b = Some nb
        \<and> edges g = [\<lparr>source = a, target = b, condition = cab\<rparr>,
                      \<lparr>source = b, target = a, condition = cba\<rparr>]
        \<and> Node_execute na s = Inr sa \<and> Node_execute nb sa = Inr sb
        \<and> should_follow \<lparr>source = a, target = b, condition = cab\<rparr> sa
        \<and> should_follow \<lparr>source = b, target = a, condition = cba\<rparr> sb \<longrightarrow>
      execute g s =
        (g, [Executed a s, Evaluated 0 sa, Executed b sa, Evaluated 1 sb],
         Inl (ValueError (''Cycle detected: node '' @ quoted a @ '' already visited''))))"
proof (intro conjI impI)
  assume "loop_state g s k = Some (st, cur, vis, log)"
  then show "vis = set (executed_names log)" by (rule loop_state_visited)
next
  assume h: "loop_state g s k = Some (st, cur, vis, log) \<and> cur \<in> set (executed_names log)"
  then have "cur \<in> vis" using loop_state_visited[of g s k st cur vis log] by simp
  with h show "execute g s =
          (g, log, Inl (ValueError (''Cycle detected: node '' @ quoted cur @ '' already visited'')))"
    by (simp add: loop_state_run[of g s k st cur vis log] execute_loop_visited)
next
  assume h: "a \<noteq> b \<and> entry_point g = Some a
        \<and> map_of (nodes g) a = Some na \<and> map_of (nodes g) b = Some nb
        \<and> edges g = [\<lparr>source = a, target = b, condition = cab\<rparr>,
                      \<lparr>source = b, target = a, condition = cba\<rparr>]
        \<and> Node_execute na s = Inr sa \<and> Node_execute nb sa = Inr sb
        \<and> should_follow \<lparr>source = a, target = b, condition = cab\<rparr> sa
        \<and> should_follow \<lparr>source = b, target = a, condition = cba\<rparr> sb"
  then have la: "get_next_nodes_log g a sa = ([Evaluated 0 sa], [b])"
    and lb: "get_next_nodes_log g b sb = ([Evaluated 1 sb], [a])"
    by (auto simp: get_next_nodes_log_def)
  from h have ba: "b \<noteq> a" by auto
  have 1: "execute_loop g s a {} [] = execute_loop g sa b {a} [Executed a s, Evaluated 0 sa]"
    using execute_loop_step[of a "{}" g na s sa b "[]" "[]"] h la
    by (simp add: get_next_nodes_def)
  have 2: "execute_loop g sa b {a} [Executed a s, Evaluated 0 sa]
      = execute_loop g sb a {a, b}
          [Executed a s, Evaluated 0 sa, Executed b sa, Evaluated 1 sb]"
    using execute_loop_step[of b "{a}" g nb sa sb a "[]" "[Executed a s, Evaluated 0 sa]"] h lb ba
    by (simp add: get_next_nodes_def insert_commute)
  show "execute g s =
        (g, [Executed a s, Evaluated 0 sa, Executed b sa, Evaluated 1 sb],
         Inl (ValueError (''Cycle detected: node '' @ quoted a @ '' already visited'')))"
    using h by (simp add: execute_def 1 2 execute_loop_visited)
qed

theorem revisit_raises_cycle_error_witness:
  "loop_state three_cycle_graph empty_state 3 =
     Some (empty_state, ''a'', {''c'', ''b'', ''a''},
           [Executed ''a'' empty_state, Evaluated 0 empty_state,
            Executed ''b'' empty_state, Evaluated 1 empty_state,
            Executed ''c'' empty_state, Evaluated 2 empty_state])
   \<and> execute three_cycle_graph empty_state =
     (three_cycle_graph,
      [Executed ''a'' empty_state, Evaluated 0 empty_state,
       Executed ''b'' empty_state, Evaluated 1 empty_state,
       Executed ''c'' empty_state, Evaluated 2 empty_state],
      Inl (ValueError (''Cycle detected: node '' @ quoted ''a'' @ '' already visited'')))
   \<and> execute cycle_graph empty_state =
     (cycle_graph,
      [Executed ''node1'' empty_state, Evaluated 0 empty_state,
       Executed ''node2'' empty_state, Evaluated 1 empty_state],
      Inl (ValueError (''Cycle detected: node '' @ quoted ''node1'' @ '' already visited'')))"
proof -
  let ?log = "[Executed ''a'' empty_state, Evaluated 0 empty_state,
            Executed ''b'' empty_state, Evaluated 1 empty_state,
            Executed ''c'' empty_state, Evaluated 2 empty_state]"
  have arrived: "loop_state three_cycle_graph empty_state 3 =
      Some (empty_state, ''a'', {''c'', ''b'', ''a''}, ?log)"
    by (simp add: numeral_3_eq_3 three_cycle_graph_def get_next_nodes_log_def
        Node_execute_def should_follow_def test_func_def)
  have seen: "''a'' \<in> set (executed_names ?log)" by simp
  have three: "execute three_cycle_graph empty_state =
     (three_cycle_graph, ?log,
      Inl (ValueError (''Cycle detected: node '' @ quoted ''a'' @ '' already visited'')))"
    by (rule revisit_raises_cycle_error[of three_cycle_graph empty_state 3 empty_state "''a''"
          "{''c'', ''b'', ''a''}" ?log, THEN conjunct2, THEN conjunct1, THEN mp])
       (rule conjI[OF arrived seen])
  have two: "execute cycle_graph empty_state =
     (cycle_graph,
      [Executed ''node1'' empty_state, Evaluated 0 empty_state,
       Executed ''node2'' empty_state, Evaluated 1 empty_state],
      Inl (ValueError (''Cycle detected: node '' @ quoted ''node1'' @ '' already visited'')))"
    by (rule revisit_raises_cycle_error[of cycle_graph empty_state 0 empty_state "''node1''" "{}"
          "[]" "''node1''" "''node2''" "\<lparr>name = ''node1'', func = test_func\<rparr>"
          "\<lparr>name = ''node2'', func = test_func\<rparr>" None None empty_state empty_state,
          THEN conjunct2, THEN conjunct2, THEN mp])
       (simp add: cycle_graph_def Node_execute_def test_func_def should_follow_def)
  from arrived three two show ?thesis by blast
qed

text \<open>The run of the guarded cycle: no cycle error although the graph has the two edges.\<close>

theorem revisit_raises_cycle_error_counterexample:
  "execute blocked_cycle_graph empty_state =
     (blocked_cycle_graph,
      [Executed ''node1'' empty_state, Evaluated 0 empty_state], Inr empty_state)"
  by (simp add: execute_def blocked_cycle_graph_def execute_loop.simps get_next_nodes_log_def
      Node_execute_def should_follow_def test_func_def always_false_def)

section \<open>The state container\<close>

text \<open>
  C3. For an instance \<open>self\<close> on the heap, a \<open>set\<close> that succeeds returns a reference
  to a new instance, different from \<open>self\<close>; the instance \<open>self\<close> is what it was, so
  \<open>get\<close> on it returns what it returned before; the new instance binds the key to the
  value; and when the value \<open>get\<close> returned for the key before differs from the new
  value, \<open>self != result\<close> holds. A \<open>set\<close> that raises leaves the heap as it was.
\<close>

theorem set_returns_new_instance:
  assumes "self < length h" and "heap_set h self k v = (h', res)"
  shows "(\<forall>r. res = Inr r \<longrightarrow>
            r \<noteq> self \<and> r < length h' \<and> h' ! self = h ! self
            \<and> heap_get h' self k dflt = heap_get h self k dflt
            \<and> heap_get h' r k dflt = v
            \<and> (\<not> py_eq (heap_get h self k VNone) v \<longrightarrow> heap_not_equals h' self r))
         \<and> (\<forall>e. res = Inl e \<longrightarrow> h' = h)"
proof (cases "StateSchema_set (h ! self) k v")
  case (Inl e)
  with assms(2) show ?thesis by (auto simp: heap_set_def)
next
  case (Inr obj)
  with assms(2) have h': "h' = h @ [obj]" and res: "res = Inr (length h)"
    by (auto simp: heap_set_def)
  from set_result[OF Inr] have c: "cls obj = cls (h ! self)" and b: "map_of (data obj) k = Some v"
    by simp_all
  have same: "h' ! self = h ! self" using assms(1) h' by (simp add: nth_append)
  have new: "h' ! length h = obj" using h' by simp
  have "\<not> py_eq (heap_get h self k VNone) v \<Longrightarrow> heap_not_equals h' self (length h)"
    unfolding heap_not_equals_def heap_get_def same new
    by (rule differs_not_equal[OF c b])
  moreover have "heap_get h' (length h) k dflt = v"
    by (simp add: heap_get_def new StateSchema_get_def b)
  ultimately show ?thesis
    using assms(1) res same h' by (auto simp: heap_get_def)
qed

theorem set_returns_new_instance_witness:
  "heap_set [original] 0 ''test_key'' (VStr ''modified'')
     = ([original, \<lparr>cls = StateSchema, data = [(''test_key'', VStr ''modified'')]\<rparr>], Inr 1)
   \<and> heap_get [original, \<lparr>cls = StateSchema, data = [(''test_key'', VStr ''modified'')]\<rparr>]
        0 ''test_key'' VNone = VStr ''original''
   \<and> heap_get [original, \<lparr>cls = StateSchema, data = [(''test_key'', VStr ''modified'')]\<rparr>]
        1 ''test_key'' VNone = VStr ''modified''
   \<and> heap_not_equals [original, \<lparr>cls = StateSchema, data = [(''test_key'', VStr ''modified'')]\<rparr>]
        0 1
   \<and> heap_set [john] 0 ''age'' (VStr ''thirty'')
       = ([john], Inl (StateValidationError ''age'' (Plain PyInt) PyStr))"
proof -
  let ?h' = "[original, \<lparr>cls = StateSchema, data = [(''test_key'', VStr ''modified'')]\<rparr>]"
  have ok: "heap_set [original] 0 ''test_key'' (VStr ''modified'') = (?h', Inr 1)"
    by (simp add: heap_set_def original_def StateSchema_set_def value_simps)
  have prior: "\<not> py_eq (heap_get [original] 0 ''test_key'' VNone) (VStr ''modified'')"
    by (simp add: heap_get_def StateSchema_get_def original_def)
  have old: "heap_get [original] 0 ''test_key'' VNone = VStr ''original''"
    by (simp add: heap_get_def StateSchema_get_def original_def)
  from set_returns_new_instance[of 0 "[original]" "''test_key''" "VStr ''modified''" ?h'
      "Inr 1" VNone] ok prior old
  have succeeded: "heap_get ?h' 0 ''test_key'' VNone = VStr ''original''
      \<and> heap_get ?h' 1 ''test_key'' VNone = VStr ''modified''
      \<and> heap_not_equals ?h' 0 1"
    by simp
  obtain h2 res where call: "heap_set [john] 0 ''age'' (VStr ''thirty'') = (h2, res)"
    by (cases "heap_set [john] 0 ''age'' (VStr ''thirty'')")
  then have res: "res = Inl (StateValidationError ''age'' (Plain PyInt) PyStr)"
    by (auto simp: heap_set_def StateSchema_set_def john_def TestState_hints value_simps)
  from set_returns_new_instance[of 0 "[john]" "''age''" "VStr ''thirty''" h2 res VNone] call res
  have "h2 = [john]" by simp
  with call res succeeded ok show ?thesis by simp
qed

text \<open>
  C8. \<open>a == b\<close> holds exactly when the two states have the same class and their
  bindings are equal as dictionaries; so \<open>==\<close> is symmetric, two states of different
  classes are never equal whatever their bindings, and \<open>!=\<close> is its negation. The
  method \<open>__eq__\<close> alone accepts an instance of a subclass
  (\<open>eq_method_not_symmetric\<close>); the operator gives the subclass operand priority,
  whose \<open>__eq__\<close> then rejects the base-class operand.
\<close>

theorem state_equality:
  "(equals a b \<longleftrightarrow> cls a = cls b \<and> dict_eq (data a) (data b))
   \<and> equals a b = equals b a
   \<and> (cls a \<noteq> cls b \<longrightarrow> \<not> equals a b)
   \<and> not_equals a b = (\<not> equals a b)"
  using dict_eq_sym[of "data a" "data b"]
  by (auto simp: equals_def not_equals_def StateSchema_eq_def issubclass_def)

theorem state_equality_witness:
  "\<not> equals plain_graph_state default_graph_state
   \<and> \<not> equals default_graph_state plain_graph_state
   \<and> equals john john
   \<and> not_equals john original
   \<and> equals \<lparr>cls = StateSchema, data = [(''a'', VBool True), (''b'', VInt 0)]\<rparr>
            \<lparr>cls = StateSchema, data = [(''b'', VBool False), (''a'', VInt 1)]\<rparr>"
proof -
  have c1: "cls plain_graph_state \<noteq> cls default_graph_state"
    by (simp add: plain_graph_state_def default_graph_state_def)
  have c2: "cls john \<noteq> cls original"
    by (simp add: john_def original_def TestState_def)
  have d: "dict_eq [(''a'', VBool True), (''b'', VInt 0)] [(''b'', VBool False), (''a'', VInt 1)]"
    by (auto simp: dict_eq_def)
  from state_equality[of plain_graph_state default_graph_state] c1
  have 1: "\<not> equals plain_graph_state default_graph_state" by blast
  from state_equality[of default_graph_state plain_graph_state] c1
  have 2: "\<not> equals default_graph_state plain_graph_state" by metis
  from state_equality[of john john] dict_eq_refl[of "data john"]
  have 3: "equals john john" by blast
  from state_equality[of john original] c2
  have 4: "not_equals john original" by blast
  from state_equality[of "\<lparr>cls = StateSchema, data = [(''a'', VBool True), (''b'', VInt 0)]\<rparr>"
      "\<lparr>cls = StateSchema, data = [(''b'', VBool False), (''a'', VInt 1)]\<rparr>"] d
  have 5: "equals \<lparr>cls = StateSchema, data = [(''a'', VBool True), (''b'', VInt 0)]\<rparr>
            \<lparr>cls = StateSchema, data = [(''b'', VBool False), (''a'', VInt 1)]\<rparr>"
    by simp
  from 1 2 3 4 5 show ?thesis by blast
qed

text \<open>
  C7, as the code has it. No class of state.py has an attribute \<open>from_dict\<close>, so the
  expression of the claim raises \<open>AttributeError\<close>. The inverse of \<open>to_dict\<close> is the
  constructor: for every state \<open>s\<close> built by a constructor call,
  \<open>type(s)(**s.to_dict())\<close> succeeds and is equal to \<open>s\<close>.
\<close>

theorem constructor_round_trip:
  assumes "new c kw = Inr s"
  shows "\<exists>s'. new (cls s) (to_dict s) = Inr s' \<and> equals s' s \<and> equals s s'"
proof -
  from assms have "cls s = c" by (simp add: new_ok)
  with new_idem[OF assms] have "new (cls s) (to_dict s) = Inr s"
    by (simp add: to_dict_def deepcopy_def)
  moreover have "equals s s"
    by (simp add: equals_def StateSchema_eq_def issubclass_def dict_eq_refl)
  ultimately show ?thesis by blast
qed


theorem constructor_round_trip_witness:
  "\<exists>s'. new TestState (to_dict john) = Inr s' \<and> equals s' john \<and> equals john s'"
proof -
  have "cls john = TestState" by (simp add: john_def)
  with constructor_round_trip[OF john_built] show ?thesis by simp
qed

text \<open>The lookup of \<open>from_dict\<close> on the state classes fails; that of \<open>to_dict\<close> finds the
  method of the base class.\<close>

theorem constructor_round_trip_counterexample:
  "class_getattr StateSchema ''from_dict'' = Inl (AttributeError ''from_dict'')
   \<and> class_getattr AgentState ''from_dict'' = Inl (AttributeError ''from_dict'')
   \<and> class_getattr GraphState ''from_dict'' = Inl (AttributeError ''from_dict'')
   \<and> class_getattr StateSchema ''to_dict'' = Inr StateSchema"
  by (simp add: class_getattr_def)

section \<open>The schema check\<close>

text \<open>
  On a state built by a constructor, \<open>set\<close> on a declared field raises
  \<open>StateValidationError\<close> exactly when the check of the value returns \<open>False\<close>, and
  succeeds when it returns \<open>True\<close> (the key \<open>self\<close> apart, which no call can pass as
  a keyword); \<open>set\<close> on an undeclared field never raises \<open>StateValidationError\<close>.
  The check is shallow: \<open>List[...]\<close> accepts exactly the lists and \<open>Dict[...]\<close> exactly
  the dictionaries, whatever their elements; a plain class accepts exactly its
  instances; the check of any other subscripted generic raises.
\<close>

lemma set_checks_declared_field:
  "(new c kw = Inr s \<and> map_of (get_type_hints c) k = Some t \<longrightarrow>
        ((\<exists>f t' a. StateSchema_set s k v = Inl (StateValidationError f t' a))
           \<longleftrightarrow> is_valid_type v t = Inr False)
        \<and> (passes_check v t \<and> k \<noteq> ''self'' \<longrightarrow> (\<exists>s'. StateSchema_set s k v = Inr s')))
   \<and> (new c kw = Inr s \<and> map_of (get_type_hints c) k = None \<longrightarrow>
        (\<forall>f t' a. StateSchema_set s k v \<noteq> Inl (StateValidationError f t' a)))
   \<and> is_valid_type v (ListOf a1) = Inr (\<exists>xs. v = VList xs)
   \<and> is_valid_type v (DictOf a1 a2) = Inr (\<exists>ys. v = VDict ys)
   \<and> is_valid_type v (Plain pc) = Inr (isinstance v pc)
   \<and> isl (is_valid_type v (TupleOf as)) \<and> isl (is_valid_type v (SetOf a1))"
proof (intro conjI impI)
  assume h: "new c kw = Inr s \<and> map_of (get_type_hints c) k = Some t"
  then have cl: "cls s = c" by (simp add: new_ok)
  show "(\<exists>f t' a. StateSchema_set s k v = Inl (StateValidationError f t' a))
           \<longleftrightarrow> is_valid_type v t = Inr False"
  proof (cases "is_valid_type v t")
    case (Inl e)
    then obtain m where "e = TypeError m" by (auto dest: is_valid_type_error)
    with Inl h cl show ?thesis by (simp add: set_eq_new)
  next
    case (Inr ok)
    show ?thesis
    proof (cases ok)
      case True
      with Inr h cl new_after_update_no_validation_error[of c kw s k v] show ?thesis
        by (simp add: set_eq_new)
    next
      case False
      with Inr h cl show ?thesis by (simp add: set_eq_new)
    qed
  qed
next
  assume h: "new c kw = Inr s \<and> map_of (get_type_hints c) k = Some t"
    and ok: "passes_check v t \<and> k \<noteq> ''self''"
  from h have cl: "cls s = c" by (simp add: new_ok)
  from h have "validate_fields (get_type_hints c) (data s) = Inr ()"
    by (simp add: new_ok base_kwargs_idem base_kwargs_valid)
  then have "validate_fields (get_type_hints c) (AList.update k v (data s)) = Inr ()"
    using h ok by (intro validate_fields_update[OF distinct_hints]) auto
  then have "validate_fields (get_type_hints c) (base_kwargs c (AList.update k v (data s))) = Inr ()"
    by (rule base_kwargs_valid)
  moreover have "check_keywords (constructor_params c) (AList.update k v (data s)) = Inr ()"
    using new_after_update_keywords[of c kw s k t v] h ok by simp
  ultimately show "\<exists>s'. StateSchema_set s k v = Inr s'"
    using h ok cl by (simp add: set_eq_new new_ok)
next
  assume h: "new c kw = Inr s \<and> map_of (get_type_hints c) k = None"
  then have cl: "cls s = c" by (simp add: new_ok)
  with h new_after_update_no_validation_error[of c kw s k v]
  show "\<forall>f t' a. StateSchema_set s k v \<noteq> Inl (StateValidationError f t' a)"
    by (simp add: set_eq_new)
next
  show "is_valid_type v (ListOf a1) = Inr (\<exists>xs. v = VList xs)"
    by (cases v) (simp_all add: is_valid_type_def isinstance_def)
  show "is_valid_type v (DictOf a1 a2) = Inr (\<exists>ys. v = VDict ys)"
    by (cases v) (simp_all add: is_valid_type_def isinstance_def)
  show "is_valid_type v (Plain pc) = Inr (isinstance v pc)"
    by (simp add: is_valid_type_def)
  show "isl (is_valid_type v (TupleOf as))" "isl (is_valid_type v (SetOf a1))"
    by (simp_all add: is_valid_type_def)
qed

lemma set_checks_declared_field_on_john:
  "(\<exists>f t a. StateSchema_set john ''age'' (VStr ''thirty'') = Inl (StateValidationError f t a))
   \<and> (\<exists>s'. StateSchema_set john ''age'' (VInt 31) = Inr s')
   \<and> (\<exists>s'. StateSchema_set john ''age'' (VBool True) = Inr s')
   \<and> (\<forall>f t a. StateSchema_set john ''city'' (VInt 5) \<noteq> Inl (StateValidationError f t a))"
proof -
  let ?kw = "[(''name'', VStr ''John''), (''age'', VInt 30)]"
  have declared: "new TestState ?kw = Inr john
      \<and> map_of (get_type_hints TestState) ''age'' = Some (Plain PyInt)"
    by (simp add: john_built TestState_hints)
  have undeclared: "new TestState ?kw = Inr john
      \<and> map_of (get_type_hints TestState) ''city'' = None"
    by (simp add: john_built TestState_hints)
  have wrong: "is_valid_type (VStr ''thirty'') (Plain PyInt) = Inr False"
    and right: "passes_check (VInt 31) (Plain PyInt) \<and> ''age'' \<noteq> ''self''"
    and sub: "passes_check (VBool True) (Plain PyInt) \<and> ''age'' \<noteq> ''self''"
    by (simp_all add: is_valid_type_def isinstance_def)
  note at_age = set_checks_declared_field[of TestState ?kw john "''age''" "Plain PyInt",
      THEN conjunct1, THEN mp, OF declared]
  have 1: "\<exists>f t a. StateSchema_set john ''age'' (VStr ''thirty'') = Inl (StateValidationError f t a)"
    by (rule at_age[THEN conjunct1, THEN iffD2]) (rule wrong)
  have 2: "\<exists>s'. StateSchema_set john ''age'' (VInt 31) = Inr s'"
    by (rule at_age[THEN conjunct2, THEN mp]) (rule right)
  have 3: "\<exists>s'. StateSchema_set john ''age'' (VBool True) = Inr s'"
    by (rule at_age[THEN conjunct2, THEN mp]) (rule sub)
  have 4: "\<forall>f t a. StateSchema_set john ''city'' (VInt 5) \<noteq> Inl (StateValidationError f t a)"
    by (rule set_checks_declared_field[of TestState ?kw john "''city''" _ "VInt 5",
          THEN conjunct2, THEN conjunct1, THEN mp])
       (rule undeclared)
  from 1 2 3 4 show ?thesis by blast
qed

text \<open>
  C6. The claim holds on the path through \<open>set\<close> (\<open>set_checks_declared_field\<close>),
  and the constructors raise for a truthy value of the wrong kind. They do not raise
  for a falsy one: \<open>GraphState\<close> passes \<open>context or {}\<close> and \<open>AgentState\<close> passes
  \<open>messages or []\<close> to the base constructor, so the empty string given for a field
  declared as a mapping or a sequence is replaced before the check and the
  construction succeeds, where \<open>set\<close> with the same value raises.
\<close>

theorem constructors_accept_falsy_wrong_kind:
  "map_of (get_type_hints GraphState) ''context'' = Some (DictOf (Of (Plain PyStr)) Any)
   \<and> is_valid_type (VStr []) (DictOf (Of (Plain PyStr)) Any) = Inr False
   \<and> new GraphState [(''context'', VStr [])] = Inr default_graph_state
   \<and> new GraphState [(''context'', VStr ''abc'')]
       = Inl (StateValidationError ''context'' (DictOf (Of (Plain PyStr)) Any) PyStr)
   \<and> StateSchema_set default_graph_state ''context'' (VStr [])
       = Inl (StateValidationError ''context'' (DictOf (Of (Plain PyStr)) Any) PyStr)
   \<and> map_of (get_type_hints AgentState) ''messages'' = Some (Plain PyList)
   \<and> is_valid_type (VStr []) (Plain PyList) = Inr False
   \<and> new AgentState [(''messages'', VStr [])]
       = Inr \<lparr>cls = AgentState,
              data = [(''messages'', VList []), (''tool_calls'', VList []),
                      (''intermediate_steps'', VList []), (''is_complete'', VBool False)]\<rparr>"
  by (simp add: default_graph_state_def StateSchema_set_def value_simps)

end
